theory Spec2Isabelle
  imports Complex_Main "HOL-Library.Word" "HOL-Library.Sublist"
begin

unbundle bit_operations_syntax

section \<open>Data model of \<^verbatim>\<open>AdvancedLoadBalancingSimulator\<close> (src/app.js)\<close>

text \<open>
  The simulator is one JavaScript class whose fields are mutated in place. The embedding
  passes the fields around as a record. Task objects are shared between \<^verbatim>\<open>this.tasks\<close>,
  the per-server queues, \<^verbatim>\<open>processingTasks\<close>, \<^verbatim>\<open>completedTasks\<close> and
  \<^verbatim>\<open>failedTasks\<close>, so they live in an explicit store (\<open>heap\<close>, from references to
  task objects) and every collection holds references. Server objects live in the array
  \<^verbatim>\<open>this.servers\<close>; the filtered list \<^verbatim>\<open>healthyServers\<close> holds positions of that array.

  JavaScript numbers that the code only ever uses as integers are \<open>int\<close> or \<open>nat\<close>; the
  others (weights, ratios, averages) are \<open>real\<close>. The rounding of doubles is written out
  in \<^verbatim>\<open>getPercentile\<close>, whose result depends on it, and is outside the model
  elsewhere; where a decision of the code depends on a quotient by a capacity of 0
  (an infinity or NaN), the cases are written out. DOM updates, chart updates and \<^verbatim>\<open>logEvent\<close>
  change no field of the simulator and are left out. \<^verbatim>\<open>Math.random()\<close> and \<^verbatim>\<open>Date.now()\<close>
  are inputs.
\<close>

datatype priority = High | Medium | Low

datatype health = Healthy | Degraded | Failed | Recovering

datatype task_status = Pending | Processing | Completed | TaskFailed

datatype sim_state = Stopped | Running | Paused | Finished

text \<open>The only exception the modelled code can raise: a property of \<^verbatim>\<open>undefined\<close> is read
  (the string names the property whose value was \<^verbatim>\<open>undefined\<close>).\<close>

datatype sim_error = TypeError string

record task =
  task_id :: nat
  priority :: priority
  arrivalTime :: int
  processingTime :: int
  remainingTime :: int
  slaDeadline :: int
  assignedServer :: "int option"
  completionTime :: "int option"
  responseTime :: "int option"
  status :: task_status
  failed :: bool
  creationTimestamp :: int

type_synonym task_ref = nat

record server =
  server_id :: int
  currentLoad :: int
  capacity :: int
  weight :: real
  healthStatus :: health
  responseTimeHistory :: "int list"
  taskQueues :: "priority \<Rightarrow> task_ref list"
  processingTasks :: "task_ref list"
  totalProcessed :: nat
  uptime :: real
  lastHealthCheck :: int
  failureTime :: "int option"
  recoveryTime :: "int option"
  creationTime :: int

record config =
  serverCount :: int
  serverCapacity :: int
  taskCount :: int
  taskProcessingTimeMin :: int
  taskProcessingTimeMax :: int
  arrivalRate :: int
  algorithm :: string
  serverFailureRate :: real
  healthCheckInterval :: int
  serverRecoveryTime :: int
  priorityDistribution :: "priority \<Rightarrow> int"

record progress =
  tp_total :: int
  tp_pending :: nat
  tp_inProgress :: nat
  tp_completed :: nat
  tp_failed :: nat
  completionPercentage :: real
  completionRate :: real
  successRate :: real
  eta :: real

text \<open>\<^verbatim>\<open>this.metrics\<close>: the array-valued properties of the object, by property path
  (\<open>''responseTimePercentiles.p50''\<close> for the nested ones). A path that is not in the
  domain is a property the object does not have.\<close>

type_synonym metrics = "string \<rightharpoonup> real list"

record sim =
  servers :: "server list"
  tasks :: "task_ref list"
  heap :: "task_ref \<Rightarrow> task"
  nextRef :: task_ref
  completedTasks :: "task_ref list"
  failedTasks :: "task_ref list"
  currentTaskId :: nat
  simulationTime :: int
  roundRobinCounter :: nat
  weightedRoundRobinCounters :: "int list"
  simulationState :: sim_state
  metrics :: metrics
  taskProgress :: "progress option"
  config :: config

text \<open>The inputs of one synchronous operation: \<open>random k\<close> is the value of the \<open>k\<close>-th
  call of \<^verbatim>\<open>Math.random()\<close> the operation can make, \<open>now\<close> the value of \<^verbatim>\<open>Date.now()\<close>.\<close>

record env =
  random :: "nat \<Rightarrow> real"
  now :: int

subsection \<open>Constants of the constructor\<close>

fun slaTarget :: "priority \<Rightarrow> int" where
  "slaTarget High = 2000"
| "slaTarget Medium = 5000"
| "slaTarget Low = 10000"

definition fresh_metrics :: metrics where
  "fresh_metrics =
     [''responseTime'' \<mapsto> [], ''throughput'' \<mapsto> [], ''resourceUtilization'' \<mapsto> [],
      ''loadFairness'' \<mapsto> [], ''slaCompliance'' \<mapsto> [], ''failureRate'' \<mapsto> [],
      ''timestamps'' \<mapsto> [],
      ''responseTimePercentiles.p50'' \<mapsto> [], ''responseTimePercentiles.p90'' \<mapsto> [],
      ''responseTimePercentiles.p95'' \<mapsto> [],
      ''priorityMetrics.high.sla'' \<mapsto> [], ''priorityMetrics.medium.sla'' \<mapsto> [],
      ''priorityMetrics.low.sla'' \<mapsto> []]"

definition default_config :: config where
  "default_config =
     \<lparr>serverCount = 5, serverCapacity = 100, taskCount = 100,
      taskProcessingTimeMin = 500, taskProcessingTimeMax = 3000, arrivalRate = 8,
      algorithm = ''roundRobin'', serverFailureRate = 2 / 100,
      healthCheckInterval = 3000, serverRecoveryTime = 10000,
      priorityDistribution = (\<lambda>p. case p of High \<Rightarrow> 20 | Medium \<Rightarrow> 50 | Low \<Rightarrow> 30)\<rparr>"

definition blank_task :: task where
  "blank_task =
     \<lparr>task_id = 0, priority = Low, arrivalTime = 0, processingTime = 0, remainingTime = 0,
      slaDeadline = 0, assignedServer = None, completionTime = None, responseTime = None,
      status = Pending, failed = False, creationTimestamp = 0\<rparr>"

text \<open>The fields as the constructor leaves them, before \<^verbatim>\<open>init()\<close> runs. The store holds
  no task yet (every reference is unallocated and reads as \<open>blank_task\<close>).\<close>

definition new_simulator :: sim where
  "new_simulator =
     \<lparr>servers = [], tasks = [], heap = (\<lambda>_. blank_task), nextRef = 0,
      completedTasks = [], failedTasks = [], currentTaskId = 1, simulationTime = 0,
      roundRobinCounter = 0, weightedRoundRobinCounters = [], simulationState = Stopped,
      metrics = fresh_metrics, taskProgress = None, config = default_config\<rparr>"

subsection \<open>\<^verbatim>\<open>normalizePriorityDistribution\<close>\<close>

definition normalizePriorityDistribution :: "config \<Rightarrow> config" where
  "normalizePriorityDistribution c =
     (let pd = priorityDistribution c;
          total = pd High + pd Medium + pd Low
      in if total \<noteq> 100
         then (let diff = 100 - total;
                   low1 = pd Low + diff;
                   low2 = max 0 (min 100 low1)
               in c\<lparr>priorityDistribution := pd(Low := low2)\<rparr>)
         else c)"

definition share_total :: "config \<Rightarrow> int" where
  "share_total c =
     priorityDistribution c High + priorityDistribution c Medium + priorityDistribution c Low"

subsection \<open>Selection strategies\<close>

text \<open>A selection returns \<open>Inr (Some x)\<close> for a server, \<open>Inr None\<close> for \<^verbatim>\<open>null\<close> or
  \<^verbatim>\<open>undefined\<close>, and \<open>Inl e\<close> when the JavaScript throws (only on an empty list, which
  \<^verbatim>\<open>assignTask\<close> never passes).\<close>

definition roundRobinSelection :: "'a list \<Rightarrow> nat \<Rightarrow> 'a option \<times> nat" where
  "roundRobinSelection srvs ctr =
     (if length srvs = 0 then (None, ctr)
      else (Some (srvs ! (ctr mod length srvs)), (ctr + 1) mod length srvs))"

text \<open>\<open>m\<close> consecutive selections against one list, the cursor threaded through.\<close>

fun rr_selections :: "'a list \<Rightarrow> nat \<Rightarrow> nat \<Rightarrow> 'a option list" where
  "rr_selections srvs ctr 0 = []"
| "rr_selections srvs ctr (Suc m) =
     (case roundRobinSelection srvs ctr of (x, ctr') \<Rightarrow> x # rr_selections srvs ctr' m)"

definition leastLoadSelection :: "server list \<Rightarrow> nat list \<Rightarrow> sim_error + nat option" where
  "leastLoadSelection store refs =
     (case refs of
        [] \<Rightarrow> Inl (TypeError ''reduce'')
      | r # rs \<Rightarrow>
          Inr (Some (foldl (\<lambda>m x. if currentLoad (store ! x) < currentLoad (store ! m)
                                   then x else m) r rs)))"

definition weight_ratio :: "server \<Rightarrow> real" where
  "weight_ratio s = weight s / max (real_of_int (currentLoad s)) 1"

definition weightedRoundRobinSelection :: "server list \<Rightarrow> nat list \<Rightarrow> sim_error + nat option" where
  "weightedRoundRobinSelection store refs =
     (case refs of
        [] \<Rightarrow> Inl (TypeError ''weight'')
      | r # rs \<Rightarrow>
          Inr (Some (fst (foldl (\<lambda>(best, bestRatio) x.
                                   if weight_ratio (store ! x) > bestRatio
                                   then (x, weight_ratio (store ! x)) else (best, bestRatio))
                                (r, weight_ratio (store ! r)) refs))))"

definition getAverageResponseTime :: "server \<Rightarrow> real" where
  "getAverageResponseTime s =
     (if length (responseTimeHistory s) = 0 then 1000
      else (let recent = drop (length (responseTimeHistory s) - 10) (responseTimeHistory s)
            in real_of_int (sum_list recent) / real (length recent)))"

definition shortestResponseTimeSelection :: "server list \<Rightarrow> nat list \<Rightarrow> sim_error + nat option" where
  "shortestResponseTimeSelection store refs =
     (case refs of
        [] \<Rightarrow> Inl (TypeError ''responseTimeHistory'')
      | r # rs \<Rightarrow>
          Inr (Some (fst (foldl (\<lambda>(best, bestAvg) x.
                                   if getAverageResponseTime (store ! x) < bestAvg
                                   then (x, getAverageResponseTime (store ! x)) else (best, bestAvg))
                                (r, getAverageResponseTime (store ! r)) refs))))"

text \<open>\<^verbatim>\<open>1 / Math.max(currentLoad / capacity, 0.1)\<close>. With capacity 0 the quotient is
  an infinity (the weight is then 0 for a positive load) or NaN (load 0); a NaN weight
  makes every comparison of the roulette loop false, so the last server is returned.\<close>

definition load_ratio :: "server \<Rightarrow> real" where
  "load_ratio s = real_of_int (currentLoad s) / real_of_int (capacity s)"

definition inverse_load_weight :: "server \<Rightarrow> real" where
  "inverse_load_weight s =
     (if capacity s = 0 \<and> currentLoad s > 0 then 0 else 1 / max (load_ratio s) (1 / 10))"

definition nan_weight :: "server \<Rightarrow> bool" where
  "nan_weight s = (capacity s = 0 \<and> currentLoad s = 0)"

fun roulette :: "real list \<Rightarrow> nat list \<Rightarrow> real \<Rightarrow> nat option" where
  "roulette ws [] rnd = None"
| "roulette [] (r # rs) rnd = None"
| "roulette (w # ws) (r # rs) rnd =
     (if rnd - w \<le> 0 then Some r else roulette ws rs (rnd - w))"

definition last_or_undefined :: "'a list \<Rightarrow> 'a option" where
  "last_or_undefined xs = (if xs = [] then None else Some (last xs))"

definition randomizedSelection :: "server list \<Rightarrow> nat list \<Rightarrow> real \<Rightarrow> sim_error + nat option" where
  "randomizedSelection store refs u =
     (let weights = map (\<lambda>x. inverse_load_weight (store ! x)) refs;
          totalWeight = foldl (+) 0 weights
      in if list_ex (\<lambda>x. nan_weight (store ! x)) refs then Inr (last_or_undefined refs)
         else (case roulette weights refs (u * totalWeight) of
                 Some x \<Rightarrow> Inr (Some x)
               | None \<Rightarrow> Inr (last_or_undefined refs)))"

subsection \<open>\<^verbatim>\<open>simpleHash\<close> and \<^verbatim>\<open>consistentHashingSelection\<close>\<close>

text \<open>\<^verbatim>\<open>Number.prototype.toString\<close> on a non-negative integer: its decimal digits.\<close>

definition digit_char :: "nat \<Rightarrow> char" where
  "digit_char d = char_of (48 + d)"

function toString :: "nat \<Rightarrow> string" where
  "toString n = (if n < 10 then [digit_char n] else toString (n div 10) @ [digit_char (n mod 10)])"
  by pat_completeness auto
termination
  by (relation "measure (\<lambda>n. n)") auto

declare toString.simps [simp del]

text \<open>The 32-bit integer operations of JavaScript on an integer-valued number:
  \<^verbatim>\<open>x << k\<close> and \<^verbatim>\<open>x & y\<close> convert their operands to 32 bits and give a signed result.\<close>

definition shl32 :: "int \<Rightarrow> nat \<Rightarrow> int" where
  "shl32 x k = sint (push_bit (k mod 32) (word_of_int x :: 32 word))"

definition and32 :: "int \<Rightarrow> int \<Rightarrow> int" where
  "and32 x y = sint ((word_of_int x :: 32 word) AND word_of_int y)"

definition hash_step :: "int \<Rightarrow> char \<Rightarrow> int" where
  "hash_step hash c = (let h1 = (shl32 hash 5 - hash) + of_char c in and32 h1 h1)"

definition simpleHash :: "string \<Rightarrow> int" where
  "simpleHash str = \<bar>foldl hash_step 0 str\<bar>"

definition consistentHashingSelection :: "'a list \<Rightarrow> task \<Rightarrow> 'a option" where
  "consistentHashingSelection srvs t =
     (let hash = simpleHash (toString (task_id t))
      in if length srvs = 0 then None
         else Some (srvs ! (nat (hash mod int (length srvs)))))"

text \<open>The hash as the specification words it: \<open>hash = hash * 31 + charCode\<close>, each step
  wrapped to a signed 32-bit integer.\<close>

definition wrap32 :: "int \<Rightarrow> int" where
  "wrap32 x = (x + 2 ^ 31) mod 2 ^ 32 - 2 ^ 31"

definition spec_rolling_hash :: "string \<Rightarrow> int" where
  "spec_rolling_hash str = foldl (\<lambda>h c. wrap32 (h * 31 + of_char c)) 0 str"

subsection \<open>\<^verbatim>\<open>getPercentile\<close>\<close>

text \<open>\<^verbatim>\<open>Math.ceil((percentile / 100) * sortedArray.length) - 1\<close> is computed in double
  precision: the quotient and the product are each rounded to the nearest double, ties to
  even. \<open>fl x\<close> is that rounding of a real number \<open>x\<close>: with \<open>2 powi e \<le> \<bar>x\<bar> < 2 powi (e + 1)\<close>
  the doubles around \<open>x\<close> are the multiples of \<open>2 powi (e - 52)\<close>, and \<open>fl x\<close> is the nearest
  one. \<open>binade\<close> finds the exponent \<open>e\<close> of a positive number by halving or doubling, and
  \<open>round_even\<close> rounds to the nearest integer, ties to even.

  The exponent range is left unbounded. Where the double product overflows to an infinity,
  the clamp gives the last position, as it does for the large number here; where the
  quotient or the product underflows, the double product and the number here are both
  below 1 in absolute value, and the clamp gives position 0 for both. \<^verbatim>\<open>Math.ceil\<close> and
  the subtraction of 1 are exact as long as the clamp does not decide alone. The
  percentile is a finite number.\<close>

definition round_even :: "real \<Rightarrow> int" where
  "round_even x =
     (let f = \<lfloor>x\<rfloor>; d = x - of_int f
      in if d < 1 / 2 then f else if 1 / 2 < d then f + 1 else if even f then f else f + 1)"

function halvings :: "real \<Rightarrow> nat" where
  "halvings x = (if x < 2 then 0 else Suc (halvings (x / 2)))"
  by pat_completeness auto
termination
proof (relation "measure (\<lambda>x. nat \<lfloor>x\<rfloor>)")
  show "wf (measure (\<lambda>x::real. nat \<lfloor>x\<rfloor>))" by simp
next
  fix x :: real
  assume "\<not> x < 2"
  then have c: "2 \<le> \<lfloor>x\<rfloor>" by linarith
  have "of_int \<lfloor>x / 2\<rfloor> \<le> x / 2" "x < of_int \<lfloor>x\<rfloor> + 1" by linarith+
  then have "2 * of_int \<lfloor>x / 2\<rfloor> < (of_int \<lfloor>x\<rfloor> + 1 :: real)" by linarith
  then have "2 * \<lfloor>x / 2\<rfloor> < \<lfloor>x\<rfloor> + 1" by linarith
  with c have "\<lfloor>x / 2\<rfloor> < \<lfloor>x\<rfloor>" "0 < \<lfloor>x\<rfloor>" by linarith+
  then show "(x / 2, x) \<in> measure (\<lambda>x. nat \<lfloor>x\<rfloor>)" by simp
qed

function doublings :: "real \<Rightarrow> nat" where
  "doublings x = (if x \<le> 0 \<or> 1 \<le> x then 0 else Suc (doublings (2 * x)))"
  by pat_completeness auto
termination
proof (relation "measure (\<lambda>x. nat \<lfloor>1 / x\<rfloor>)")
  show "wf (measure (\<lambda>x::real. nat \<lfloor>1 / x\<rfloor>))" by simp
next
  fix x :: real
  assume "\<not> (x \<le> 0 \<or> 1 \<le> x)"
  then have x: "0 < x" "x < 1" by auto
  define y where "y = 1 / x"
  have y: "1 \<le> y" using x by (simp add: y_def)
  then have c: "1 \<le> \<lfloor>y\<rfloor>" by linarith
  have "of_int \<lfloor>y / 2\<rfloor> \<le> y / 2" "y < of_int \<lfloor>y\<rfloor> + 1" by linarith+
  then have "2 * of_int \<lfloor>y / 2\<rfloor> < (of_int \<lfloor>y\<rfloor> + 1 :: real)" by linarith
  then have "2 * \<lfloor>y / 2\<rfloor> < \<lfloor>y\<rfloor> + 1" by linarith
  with c have "\<lfloor>y / 2\<rfloor> < \<lfloor>y\<rfloor>" "0 < \<lfloor>y\<rfloor>" by linarith+
  moreover have "1 / (2 * x) = y / 2" by (simp add: y_def)
  ultimately have "\<lfloor>1 / (2 * x)\<rfloor> < \<lfloor>1 / x\<rfloor>" "0 < \<lfloor>1 / x\<rfloor>" by (simp_all only: y_def)
  then show "(2 * x, x) \<in> measure (\<lambda>x. nat \<lfloor>1 / x\<rfloor>)" by simp
qed

declare halvings.simps [simp del] doublings.simps [simp del]

text \<open>For \<open>x > 0\<close>: the \<open>e\<close> with \<open>2 powi e \<le> x < 2 powi (e + 1)\<close>.\<close>

definition binade :: "real \<Rightarrow> int" where
  "binade x = (if 1 \<le> x then int (halvings x) else - int (doublings x))"

definition fl :: "real \<Rightarrow> real" where
  "fl x =
     (if x = 0 then 0
      else (let u = 2 powi (binade \<bar>x\<bar> - 52)
            in sgn x * (of_int (round_even (\<bar>x\<bar> / u)) * u)))"

definition getPercentile :: "real list \<Rightarrow> real \<Rightarrow> real" where
  "getPercentile sortedArray percentile =
     (if length sortedArray = 0 then 0
      else (let index = \<lceil>fl (fl (percentile / 100) * real (length sortedArray))\<rceil> - 1
            in sortedArray ! nat (max 0 (min index (int (length sortedArray) - 1)))))"

text \<open>The position the specification names, \<open>ceil(p/100 * n) - 1\<close> clamped to \<open>0 .. n - 1\<close>,
  for an array of \<open>n\<close> elements, and the position the code computes.\<close>

definition clamped_index :: "nat \<Rightarrow> real \<Rightarrow> nat" where
  "clamped_index n p = nat (max 0 (min (\<lceil>p / 100 * real n\<rceil> - 1) (int n - 1)))"


text \<open>The value of a string of decimal digits.\<close>

definition decimal_value :: "string \<Rightarrow> nat" where
  "decimal_value str = foldl (\<lambda>a c. 10 * a + (of_char c - 48)) 0 str"

section \<open>Operations\<close>

subsection \<open>\<^verbatim>\<open>createServers\<close> and \<^verbatim>\<open>resetSimulation\<close>\<close>

definition new_server :: "env \<Rightarrow> config \<Rightarrow> int \<Rightarrow> server" where
  "new_server e c i =
     \<lparr>server_id = i, currentLoad = 0, capacity = serverCapacity c,
      weight = random e (nat (i - 1)) * (1 / 2) + 3 / 4,
      healthStatus = Healthy, responseTimeHistory = [],
      taskQueues = (\<lambda>_. []), processingTasks = [], totalProcessed = 0, uptime = 100,
      lastHealthCheck = now e, failureTime = None, recoveryTime = None,
      creationTime = now e\<rparr>"

definition createServers :: "env \<Rightarrow> sim \<Rightarrow> sim" where
  "createServers e s =
     s\<lparr>servers := map (new_server e (config s)) [1..serverCount (config s)],
       weightedRoundRobinCounters := map (\<lambda>_. 0) [1..serverCount (config s)]\<rparr>"

definition resetSimulation :: "env \<Rightarrow> sim \<Rightarrow> sim" where
  "resetSimulation e s =
     createServers e
       (s\<lparr>simulationState := Stopped, simulationTime := 0, currentTaskId := 1,
          roundRobinCounter := 0, tasks := [], completedTasks := [], failedTasks := [],
          metrics := fresh_metrics\<rparr>)"

subsection \<open>\<^verbatim>\<open>assignTask\<close> and \<^verbatim>\<open>generateTask\<close>\<close>

definition selectServerByAlgorithm ::
  "env \<Rightarrow> nat list \<Rightarrow> task \<Rightarrow> sim \<Rightarrow> (sim_error + nat option) \<times> sim" where
  "selectServerByAlgorithm e healthyServers t s =
     (if algorithm (config s) = ''roundRobin''
      then (case roundRobinSelection healthyServers (roundRobinCounter s) of
              (x, ctr) \<Rightarrow> (Inr x, s\<lparr>roundRobinCounter := ctr\<rparr>))
      else if algorithm (config s) = ''leastLoad''
      then (leastLoadSelection (servers s) healthyServers, s)
      else if algorithm (config s) = ''weightedRoundRobin''
      then (weightedRoundRobinSelection (servers s) healthyServers, s)
      else if algorithm (config s) = ''shortestResponseTime''
      then (shortestResponseTimeSelection (servers s) healthyServers, s)
      else if algorithm (config s) = ''randomized''
      then (randomizedSelection (servers s) healthyServers (random e 2), s)
      else if algorithm (config s) = ''consistentHashing''
      then (Inr (consistentHashingSelection healthyServers t), s)
      else (Inr (case healthyServers of [] \<Rightarrow> None | x # _ \<Rightarrow> Some x), s))"

definition usable :: "server \<Rightarrow> bool" where
  "usable srv = (healthStatus srv = Healthy \<or> healthStatus srv = Degraded)"

definition fail_task :: "task_ref \<Rightarrow> sim \<Rightarrow> sim" where
  "fail_task r s =
     s\<lparr>heap := (heap s)(r := (heap s r)\<lparr>failed := True, status := TaskFailed\<rparr>),
       failedTasks := failedTasks s @ [r]\<rparr>"

definition enqueue :: "task_ref \<Rightarrow> task \<Rightarrow> server \<Rightarrow> server" where
  "enqueue r t srv =
     srv\<lparr>taskQueues := (taskQueues srv)(priority t := taskQueues srv (priority t) @ [r]),
         processingTasks := processingTasks srv @ [r],
         currentLoad := currentLoad srv + processingTime t\<rparr>"

definition assignTask :: "env \<Rightarrow> task_ref \<Rightarrow> sim \<Rightarrow> sim_error option \<times> sim" where
  "assignTask e r s =
     (let healthyServers = filter (\<lambda>i. usable (servers s ! i)) [0..<length (servers s)]
      in if length healthyServers = 0 then (None, fail_task r s)
         else (case selectServerByAlgorithm e healthyServers (heap s r) s of
                 (Inl err, s1) \<Rightarrow> (Some err, s1)
               | (Inr None, s1) \<Rightarrow> (None, fail_task r s1)
               | (Inr (Some i), s1) \<Rightarrow>
                   (let selectedServer = servers s1 ! i;
                        t = (heap s1 r)\<lparr>assignedServer := Some (server_id selectedServer),
                                        status := Processing\<rparr>
                    in (None,
                        s1\<lparr>heap := (heap s1)(r := t),
                           servers := (servers s1)[i := enqueue r t selectedServer]\<rparr>))))"

definition generateTask :: "env \<Rightarrow> sim \<Rightarrow> sim_error option \<times> sim" where
  "generateTask e s =
     (let c = config s;
          procTime = \<lfloor>random e 0 *
                       real_of_int (taskProcessingTimeMax c - taskProcessingTimeMin c + 1)\<rfloor>
                     + taskProcessingTimeMin c;
          rand = random e 1 * 100;
          prio = (if rand < real_of_int (priorityDistribution c High) then High
                  else if rand < real_of_int (priorityDistribution c High
                                              + priorityDistribution c Medium) then Medium
                  else Low);
          t = \<lparr>task_id = currentTaskId s, priority = prio, arrivalTime = simulationTime s,
               processingTime = procTime, remainingTime = procTime,
               slaDeadline = simulationTime s + slaTarget prio, assignedServer = None,
               completionTime = None, responseTime = None, status = Pending,
               failed = False, creationTimestamp = now e\<rparr>;
          r = nextRef s
      in assignTask e r
           (s\<lparr>currentTaskId := currentTaskId s + 1, heap := (heap s)(r := t),
              nextRef := r + 1, tasks := tasks s @ [r]\<rparr>))"

subsection \<open>\<^verbatim>\<open>processServerTasks\<close>\<close>

definition maxProcessingPerStep :: nat where
  "maxProcessingPerStep = 3"

text \<open>\<^verbatim>\<open>processingTasks.findIndex(t => t.id === task.id)\<close> followed by \<^verbatim>\<open>splice\<close>: the first
  entry whose task has the id is removed.\<close>

fun remove_by_id :: "(task_ref \<Rightarrow> task) \<Rightarrow> nat \<Rightarrow> task_ref list \<Rightarrow> task_ref list" where
  "remove_by_id h i [] = []"
| "remove_by_id h i (x # xs) = (if task_id (h x) = i then xs else x # remove_by_id h i xs)"

definition push_history :: "int \<Rightarrow> int list \<Rightarrow> int list" where
  "push_history rt hist = (let h = hist @ [rt] in if length h > 20 then tl h else h)"

text \<open>The task has reached \<open>remainingTime \<le> 0\<close>: the completion branch of the callback.\<close>

definition complete_task :: "task_ref \<Rightarrow> server \<times> sim \<Rightarrow> server \<times> sim" where
  "complete_task r st =
     (case st of (srv, s) \<Rightarrow>
        (let t0 = heap s r;
             rt = simulationTime s - arrivalTime t0;
             t = t0\<lparr>completionTime := Some (simulationTime s), responseTime := Some rt,
                    status := Completed\<rparr>;
             h = (heap s)(r := t)
         in (srv\<lparr>currentLoad := max 0 (currentLoad srv - processingTime t),
                 totalProcessed := totalProcessed srv + 1,
                 responseTimeHistory := push_history rt (responseTimeHistory srv),
                 processingTasks := remove_by_id h (task_id t) (processingTasks srv)\<rparr>,
             s\<lparr>heap := h, completedTasks := completedTasks s @ [r]\<rparr>)))"

text \<open>The callback of \<^verbatim>\<open>taskQueues[priority].filter\<close>, run over the queue from the front.
  The triple is \<^verbatim>\<open>processedThisStep\<close>, the server and the simulator; the result holds
  the entries the filter keeps.\<close>

fun filter_queue ::
  "task_ref list \<Rightarrow> nat \<times> server \<times> sim \<Rightarrow> task_ref list \<times> (nat \<times> server \<times> sim)" where
  "filter_queue [] st = ([], st)"
| "filter_queue (r # rs) (n, srv, s) =
     (if n \<ge> maxProcessingPerStep then
        (case filter_queue rs (n, srv, s) of (kept, st') \<Rightarrow> (r # kept, st'))
      else if remainingTime (heap s r) \<le> 0 then
        (case filter_queue rs (n, srv, s) of (kept, st') \<Rightarrow> (r # kept, st'))
      else
        (let t = heap s r;
             stepProcessing = min 1000 (remainingTime t);
             t1 = t\<lparr>remainingTime := remainingTime t - stepProcessing\<rparr>;
             s1 = s\<lparr>heap := (heap s)(r := t1)\<rparr>
         in if remainingTime t1 \<le> 0
            then (case complete_task r (srv, s1) of
                    (srv2, s2) \<Rightarrow> filter_queue rs (n + 1, srv2, s2))
            else (case filter_queue rs (n + 1, srv, s1) of
                    (kept, st') \<Rightarrow> (r # kept, st'))))"

definition process_priority :: "priority \<Rightarrow> nat \<times> server \<times> sim \<Rightarrow> nat \<times> server \<times> sim" where
  "process_priority p st =
     (case st of (n, srv, s) \<Rightarrow>
        if n \<ge> maxProcessingPerStep then (n, srv, s)
        else (case filter_queue (taskQueues srv p) (n, srv, s) of
                (kept, (n', srv', s')) \<Rightarrow>
                  (n', srv'\<lparr>taskQueues := (taskQueues srv')(p := kept)\<rparr>, s')))"

text \<open>The scheduling pass of a server that has not failed; the first component is the
  final value of \<^verbatim>\<open>processedThisStep\<close>.\<close>

definition schedule_pass :: "server \<Rightarrow> sim \<Rightarrow> nat \<times> server \<times> sim" where
  "schedule_pass srv s = foldl (\<lambda>st p. process_priority p st) (0, srv, s) [High, Medium, Low]"

definition drain_failed :: "server \<Rightarrow> sim \<Rightarrow> server \<times> sim" where
  "drain_failed srv s =
     (let allTasks = taskQueues srv High @ taskQueues srv Medium @ taskQueues srv Low
      in (srv\<lparr>taskQueues := (taskQueues srv)(High := [], Medium := [], Low := []),
              processingTasks := [], currentLoad := 0\<rparr>,
          foldl (\<lambda>s' r. fail_task r s') s allTasks))"

definition processServerTasks :: "server \<Rightarrow> sim \<Rightarrow> server \<times> sim" where
  "processServerTasks srv s =
     (if healthStatus srv = Failed then drain_failed srv s
      else snd (schedule_pass srv s))"

text \<open>\<^verbatim>\<open>this.servers.forEach(server => this.processServerTasks(server))\<close>\<close>

definition process_all_servers :: "sim \<Rightarrow> sim" where
  "process_all_servers s =
     foldl (\<lambda>s' i. case processServerTasks (servers s' ! i) s' of
                     (srv, s'') \<Rightarrow> s''\<lparr>servers := (servers s'')[i := srv]\<rparr>)
           s [0..<length (servers s)]"

subsection \<open>\<^verbatim>\<open>ageTasks\<close>\<close>

text \<open>The bound \<^verbatim>\<open>slaTarget * 0.3\<close> is 600, 1500 or 3000: the three products are exact
  in double precision, and the time left is an integer.\<close>

definition age_task :: "int \<Rightarrow> task \<Rightarrow> task" where
  "age_task time t =
     (if status t = Processing then
        (let slaTimeRemaining = slaDeadline t - time
         in if real_of_int slaTimeRemaining < real_of_int (slaTarget (priority t)) * (3 / 10)
            then (if priority t = Low then t\<lparr>priority := Medium\<rparr>
                  else if priority t = Medium then t\<lparr>priority := High\<rparr>
                  else t)
            else t)
      else t)"

definition ageTasks :: "sim \<Rightarrow> sim" where
  "ageTasks s =
     s\<lparr>heap := foldl (\<lambda>h r. h(r := age_task (simulationTime s) (h r))) (heap s) (tasks s)\<rparr>"

subsection \<open>\<^verbatim>\<open>updateServerHealth\<close> and the manual overrides\<close>

text \<open>\<^verbatim>\<open>loadRatio > 80\<close> and \<^verbatim>\<open>loadRatio < 60\<close>, with the quotient by capacity 0 written
  out (an infinity with the sign of the load; NaN for load 0, where both are false).\<close>

definition ratio_above :: "server \<Rightarrow> real \<Rightarrow> bool" where
  "ratio_above srv b = (if capacity srv = 0 then currentLoad srv > 0 else load_ratio srv > b)"

definition ratio_below :: "server \<Rightarrow> real \<Rightarrow> bool" where
  "ratio_below srv b = (if capacity srv = 0 then currentLoad srv < 0 else load_ratio srv < b)"

text \<open>\<^verbatim>\<open>server.recoveryTime && now >= server.recoveryTime\<close>: a timestamp is truthy when
  it is neither \<^verbatim>\<open>null\<close> nor 0.\<close>

definition due :: "int \<Rightarrow> int option \<Rightarrow> bool" where
  "due t x = (case x of None \<Rightarrow> False | Some v \<Rightarrow> v \<noteq> 0 \<and> t \<ge> v)"

definition mark_failed :: "env \<Rightarrow> config \<Rightarrow> server \<Rightarrow> server" where
  "mark_failed e c srv =
     srv\<lparr>healthStatus := Failed, failureTime := Some (now e),
         recoveryTime := Some (now e + serverRecoveryTime c)\<rparr>"

definition health_check :: "env \<Rightarrow> config \<Rightarrow> nat \<Rightarrow> server \<Rightarrow> server" where
  "health_check e c k srv =
     (let srv1 = (if healthStatus srv = Healthy \<and> random e k < serverFailureRate c * 3
                  then mark_failed e c srv else srv);
          srv2 = (if healthStatus srv1 = Failed \<and> due (now e) (recoveryTime srv1)
                  then srv1\<lparr>healthStatus := Recovering\<rparr> else srv1);
          srv3 = (if healthStatus srv2 = Healthy
                  then (if ratio_above srv2 80 then srv2\<lparr>healthStatus := Degraded\<rparr> else srv2)
                  else if healthStatus srv2 = Degraded
                  then (if ratio_below srv2 60 then srv2\<lparr>healthStatus := Healthy\<rparr> else srv2)
                  else srv2);
          totalTime = max 1 (now e - creationTime srv3);
          downTime = (case failureTime srv3 of
                        None \<Rightarrow> 0
                      | Some ft \<Rightarrow> if ft \<noteq> 0 then min (now e - ft) (serverRecoveryTime c) else 0)
      in srv3\<lparr>uptime := max 0 (real_of_int (totalTime - downTime) / real_of_int totalTime * 100)\<rparr>)"

definition updateServerHealth :: "env \<Rightarrow> sim \<Rightarrow> sim" where
  "updateServerHealth e s =
     s\<lparr>servers := map (\<lambda>(k, srv). health_check e (config s) k srv)
                       (enumerate 0 (servers s))\<rparr>"

text \<open>The callback that \<^verbatim>\<open>setTimeout\<close> runs two seconds after a server became
  \<^verbatim>\<open>recovering\<close>, for the server at position \<open>i\<close>.\<close>

definition finish_recovery :: "server \<Rightarrow> server" where
  "finish_recovery srv =
     (if healthStatus srv = Recovering
      then srv\<lparr>healthStatus := Healthy, failureTime := None, recoveryTime := None\<rparr>
      else srv)"

definition recoveryTimeout :: "nat \<Rightarrow> sim \<Rightarrow> sim" where
  "recoveryTimeout i s =
     (if i < length (servers s) then s\<lparr>servers := (servers s)[i := finish_recovery (servers s ! i)]\<rparr>
      else s)"

definition simulateRandomFailure :: "env \<Rightarrow> sim \<Rightarrow> sim_error option \<times> sim" where
  "simulateRandomFailure e s =
     (let healthyServers = filter (\<lambda>i. usable (servers s ! i)) [0..<length (servers s)]
      in if length healthyServers > 0
         then (let k = \<lfloor>random e 0 * real (length healthyServers)\<rfloor>
               in if 0 \<le> k \<and> k < int (length healthyServers)
                  then (let i = healthyServers ! nat k
                        in (None, s\<lparr>servers := (servers s)[i := mark_failed e (config s) (servers s ! i)]\<rparr>))
                  else (Some (TypeError ''healthStatus''), s))
         else (None, s))"

definition recover_server :: "server \<Rightarrow> server" where
  "recover_server srv =
     (if healthStatus srv = Failed \<or> healthStatus srv = Recovering
      then srv\<lparr>healthStatus := Healthy, failureTime := None, recoveryTime := None\<rparr>
      else srv)"

definition recoverAllServers :: "sim \<Rightarrow> sim" where
  "recoverAllServers s = s\<lparr>servers := map recover_server (servers s)\<rparr>"

subsection \<open>Metrics\<close>

text \<open>\<^verbatim>\<open>this.metrics.k.push(v)\<close>: a \<^verbatim>\<open>TypeError\<close> when the object has no property \<open>k\<close>.\<close>

definition push_metric :: "string \<Rightarrow> real \<Rightarrow> metrics \<Rightarrow> sim_error + metrics" where
  "push_metric k v m = (case m k of None \<Rightarrow> Inl (TypeError k) | Some xs \<Rightarrow> Inr (m(k \<mapsto> xs @ [v])))"

text \<open>Consecutive \<^verbatim>\<open>push\<close> statements: the first one that throws ends the sequence, the
  earlier ones have taken effect.\<close>

fun push_all :: "(string \<times> real) list \<Rightarrow> metrics \<Rightarrow> sim_error option \<times> metrics" where
  "push_all [] m = (None, m)"
| "push_all ((k, v) # kvs) m =
     (case push_metric k v m of Inl e \<Rightarrow> (Some e, m) | Inr m' \<Rightarrow> push_all kvs m')"

text \<open>A response time in arithmetic: \<^verbatim>\<open>null\<close> counts as 0.\<close>

definition rt_of :: "task \<Rightarrow> int" where
  "rt_of t = (case responseTime t of None \<Rightarrow> 0 | Some v \<Rightarrow> v)"

definition average :: "real list \<Rightarrow> real" where
  "average xs = foldl (+) 0 xs / real (length xs)"

definition sla_overall :: "sim \<Rightarrow> real" where
  "sla_overall s =
     (if length (completedTasks s) > 0
      then (let totalCompliant =
                  filter (\<lambda>r. rt_of (heap s r) \<le> slaTarget (priority (heap s r))) (completedTasks s)
            in real (length totalCompliant) / real (length (completedTasks s)) * 100)
      else 100)"

definition calculateAdvancedMetrics :: "sim \<Rightarrow> sim_error option \<times> sim" where
  "calculateAdvancedMetrics s =
     (let timestamp = simulationTime s;
          completedResponseTimes =
            sort (map (\<lambda>r. real_of_int (rt_of (heap s r))) (completedTasks s));
          nonempty = length completedResponseTimes > 0;
          avgResponseTime = (if nonempty then average completedResponseTimes else 0);
          p50 = (if nonempty then getPercentile completedResponseTimes 50 else 0);
          p90 = (if nonempty then getPercentile completedResponseTimes 90 else 0);
          p95 = (if nonempty then getPercentile completedResponseTimes 95 else 0);
          throughput = (if simulationTime s > 0
                        then real (length (completedTasks s)) / real_of_int (simulationTime s)
                        else 0);
          totalTasks = length (completedTasks s) + length (failedTasks s);
          failureRate = (if totalTasks > 0
                         then real (length (failedTasks s)) / real totalTasks * 100 else 0)
      in case push_all
                [(''responseTime'', avgResponseTime), (''throughput'', throughput),
                 (''slaCompliance'', sla_overall s), (''failureRate'', failureRate),
                 (''timestamps'', real_of_int timestamp),
                 (''responseTimePercentiles.p50'', p50),
                 (''responseTimePercentiles.p90'', p90),
                 (''responseTimePercentiles.p95'', p95)]
                (metrics s) of
           (err, m) \<Rightarrow> (err, s\<lparr>metrics := m\<rparr>))"

definition count_status :: "sim \<Rightarrow> task_status \<Rightarrow> nat" where
  "count_status s st = length (filter (\<lambda>r. status (heap s r) = st) (tasks s))"

definition updateTaskProgress :: "sim \<Rightarrow> sim" where
  "updateTaskProgress s =
     (let pendingTasks = count_status s Pending;
          inProgressTasks = count_status s Processing;
          completed = length (completedTasks s);
          failedN = length (failedTasks s);
          rate = (if simulationTime s > 0
                  then real completed / (real_of_int (simulationTime s) * (1 / 10)) else 0)
      in s\<lparr>taskProgress := Some
            \<lparr>tp_total = taskCount (config s), tp_pending = pendingTasks,
             tp_inProgress = inProgressTasks, tp_completed = completed, tp_failed = failedN,
             completionPercentage =
               (if taskCount (config s) > 0
                then real (completed + failedN) / real_of_int (taskCount (config s)) * 100
                else 0),
             completionRate = rate,
             successRate =
               (if completed + failedN > 0
                then real completed / real (completed + failedN) * 100 else 100),
             eta = (if rate > 0 \<and> pendingTasks + inProgressTasks > 0
                    then real (pendingTasks + inProgressTasks) / rate else 0)\<rparr>\<rparr>)"

definition calculateMetrics :: "sim \<Rightarrow> sim_error option \<times> sim" where
  "calculateMetrics s =
     (case taskProgress s of
        None \<Rightarrow> (Some (TypeError ''taskProgress''), s)
      | Some tp \<Rightarrow>
         (let timestamp = simulationTime s;
              avgResponseTime =
                (if length (completedTasks s) > 0
                 then real_of_int (foldl (\<lambda>acc r. acc + rt_of (heap s r)) 0 (completedTasks s))
                      / real (length (completedTasks s))
                 else 0);
              throughput = completionRate tp;
              healthyServers = filter (\<lambda>srv. healthStatus srv = Healthy) (servers s);
              totalCapacity = foldl (\<lambda>acc srv. acc + capacity srv) 0 healthyServers;
              totalLoad = foldl (\<lambda>acc srv. acc + currentLoad srv) 0 healthyServers;
              resourceUtilization =
                (if totalCapacity > 0
                 then real_of_int totalLoad / real_of_int totalCapacity * 100 else 0);
              loads = map (\<lambda>srv. real_of_int (currentLoad srv)) healthyServers;
              avgLoad = foldl (+) 0 loads / real (max (length loads) 1);
              variance = foldl (\<lambda>acc l. acc + (l - avgLoad)\<^sup>2) 0 loads
                         / real (max (length loads) 1);
              standardDeviation = sqrt variance
          in case push_all
                    [(''responseTime'', avgResponseTime), (''throughput'', throughput),
                     (''resourceUtilization'', resourceUtilization),
                     (''loadFairness'', standardDeviation),
                     (''successRate'', successRate tp),
                     (''completionVelocity'', throughput),
                     (''timestamps'', real_of_int timestamp)]
                    (metrics s) of
               (err, m) \<Rightarrow> (err, s\<lparr>metrics := m\<rparr>)))"

subsection \<open>\<^verbatim>\<open>processSimulationStep\<close>\<close>

definition stopSimulation :: "sim \<Rightarrow> sim" where
  "stopSimulation s = s\<lparr>simulationState := Finished\<rparr>"

definition end_check :: "sim \<Rightarrow> sim" where
  "end_check s =
     (let totalTasksGenerated = int (currentTaskId s) - 1;
          allTasksProcessed =
            (int (length (completedTasks s) + length (failedTasks s))
               \<ge> min totalTasksGenerated (taskCount (config s)))
      in if allTasksProcessed \<and> totalTasksGenerated \<ge> taskCount (config s)
         then stopSimulation s else s)"

text \<open>One tick. The result holds the exception that ended the tick, if any, and the
  simulator as the tick left it (a throw keeps every mutation made before it).\<close>

definition processSimulationStep :: "env \<Rightarrow> sim \<Rightarrow> sim_error option \<times> sim" where
  "processSimulationStep e s =
     (let s1 = s\<lparr>simulationTime := simulationTime s + 1\<rparr>;
          s2 = (if simulationTime s1 mod 3 = 0 then updateServerHealth e s1 else s1);
          s3 = process_all_servers s2;
          s4 = ageTasks s3
      in case calculateAdvancedMetrics s4 of
           (Some err, s5) \<Rightarrow> (Some err, s5)
         | (None, s5) \<Rightarrow>
             (case calculateMetrics (updateTaskProgress s5) of
                (Some err, s7) \<Rightarrow> (Some err, s7)
              | (None, s7) \<Rightarrow> (None, end_check s7)))"

section \<open>The simulator as a transition system\<close>

text \<open>Every way the fields change: the operations above, each with any input, a change
  of the configuration by an input handler, and a change of \<^verbatim>\<open>simulationState\<close> by the
  start, pause and resume buttons. The recovery callback may run at any moment.\<close>

inductive sim_step :: "sim \<Rightarrow> sim \<Rightarrow> bool" where
  step_reset: "sim_step s (resetSimulation e s)"
| step_generate: "sim_step s (snd (generateTask e s))"
| step_tick: "sim_step s (snd (processSimulationStep e s))"
| step_failure: "sim_step s (snd (simulateRandomFailure e s))"
| step_recover_all: "sim_step s (recoverAllServers s)"
| step_timeout: "sim_step s (recoveryTimeout i s)"
| step_configure: "sim_step s (s\<lparr>config := c\<rparr>)"
| step_control: "sim_step s (s\<lparr>simulationState := st\<rparr>)"

text \<open>The constructor ends with \<^verbatim>\<open>init()\<close>, which resets the simulator.\<close>

inductive reachable :: "sim \<Rightarrow> bool" where
  reach_init: "reachable (resetSimulation e new_simulator)"
| reach_step: "reachable s \<Longrightarrow> sim_step s s' \<Longrightarrow> reachable s'"

section \<open>Notions used in the statements and proofs\<close>

text \<open>The order in which a scheduling pass visits the queues of a server.\<close>

definition queue_order :: "server \<Rightarrow> task_ref list" where
  "queue_order srv = taskQueues srv High @ taskQueues srv Medium @ taskQueues srv Low"

text \<open>A queued task is eligible for an advancement when it has time left; \<open>advance\<close> is
  the time left after one advancement. With \<open>n\<close> advancements already made in the pass,
  \<open>advanced n s q\<close> are the tasks of the queue \<open>q\<close> that the rest of the budget reaches:
  the first eligible ones, in queue order.\<close>

definition eligible :: "sim \<Rightarrow> task_ref \<Rightarrow> bool" where
  "eligible s r = (remainingTime (heap s r) > 0)"

definition advance :: "int \<Rightarrow> int" where
  "advance rem = rem - min 1000 rem"

definition advanced :: "nat \<Rightarrow> sim \<Rightarrow> task_ref list \<Rightarrow> task_ref list" where
  "advanced n s q = take (maxProcessingPerStep - n) (filter (eligible s) q)"

definition advanced_by_pass :: "server \<Rightarrow> sim \<Rightarrow> task_ref list" where
  "advanced_by_pass srv s =
     take maxProcessingPerStep (filter (eligible s) (queue_order srv))"

text \<open>Priorities by level.\<close>

fun prio_rank :: "priority \<Rightarrow> nat" where
  "prio_rank Low = 0"
| "prio_rank Medium = 1"
| "prio_rank High = 2"

text \<open>What an operation leaves alone: \<open>frame\<close> for the operations that neither touch the
  metrics, the task list and the allocation counter nor any priority; \<open>pass_frame\<close> for
  the pass of one server, which leaves \<^verbatim>\<open>this.servers\<close> alone as well (it works on the
  server it was given); \<open>same_tasks\<close> for the metrics phase of a tick, which leaves the
  whole store, the servers, the clock and the configuration alone; \<open>touches_only r\<close> for an assignment, which writes
  task \<open>r\<close> only.\<close>

definition frame :: "sim \<Rightarrow> sim \<Rightarrow> bool" where
  "frame s s' = (metrics s' = metrics s \<and> tasks s' = tasks s \<and> nextRef s' = nextRef s
                 \<and> (\<forall>x. priority (heap s' x) = priority (heap s x)))"

definition pass_frame :: "sim \<Rightarrow> sim \<Rightarrow> bool" where
  "pass_frame s s' = (frame s s' \<and> servers s' = servers s)"

definition same_tasks :: "sim \<Rightarrow> sim \<Rightarrow> bool" where
  "same_tasks s s' = (heap s' = heap s \<and> tasks s' = tasks s \<and> nextRef s' = nextRef s
                      \<and> servers s' = servers s \<and> dom (metrics s') = dom (metrics s)
                      \<and> simulationTime s' = simulationTime s \<and> config s' = config s)"

definition touches_only :: "task_ref \<Rightarrow> sim \<Rightarrow> sim \<Rightarrow> bool" where
  "touches_only r s s' =
     (metrics s' = metrics s \<and> tasks s' = tasks s \<and> nextRef s' = nextRef s
      \<and> priority (heap s' r) = priority (heap s r)
      \<and> (\<forall>x. x \<noteq> r \<longrightarrow> heap s' x = heap s x))"

text \<open>The part of a tick before the metrics are computed and before \<^verbatim>\<open>ageTasks\<close>.\<close>

definition tick_core :: "env \<Rightarrow> sim \<Rightarrow> sim" where
  "tick_core e s =
     (let s1 = s\<lparr>simulationTime := simulationTime s + 1\<rparr>;
          s2 = (if simulationTime s1 mod 3 = 0 then updateServerHealth e s1 else s1)
      in process_all_servers s2)"

text \<open>Invariants of the reachable states: \<^verbatim>\<open>this.metrics\<close> has the properties the
  constructor gave it, and \<^verbatim>\<open>this.tasks\<close> holds each allocated task once.\<close>

definition metrics_ok :: "sim \<Rightarrow> bool" where
  "metrics_ok s = (dom (metrics s) = dom fresh_metrics)"

definition tasks_ok :: "sim \<Rightarrow> bool" where
  "tasks_ok s = (distinct (tasks s) \<and> (\<forall>x \<in> set (tasks s). x < nextRef s))"

text \<open>A third one: the queues of a server hold each task at most once, and only allocated
  tasks (\<open>n\<close> is the allocation counter).\<close>

definition queue_ok :: "nat \<Rightarrow> server \<Rightarrow> bool" where
  "queue_ok n srv = (distinct (queue_order srv) \<and> (\<forall>x \<in> set (queue_order srv). x < n))"

definition queues_ok :: "sim \<Rightarrow> bool" where
  "queues_ok s = (\<forall>srv \<in> set (servers s). queue_ok (nextRef s) srv)"


section \<open>Example inputs\<close>

text \<open>Shares as the sliders can leave them: high and medium at 60, low at 30.\<close>

definition shares_60_60_30 :: config where
  "shares_60_60_30 =
     default_config\<lparr>priorityDistribution :=
                      (\<lambda>p. case p of High \<Rightarrow> 60 | Medium \<Rightarrow> 60 | Low \<Rightarrow> 30)\<rparr>"

text \<open>Fixed inputs: every random draw is 0.5, the clock reads 1000.\<close>

definition env0 :: env where
  "env0 = \<lparr>random = (\<lambda>_. 1 / 2), now = 1000\<rparr>"

text \<open>A task as \<^verbatim>\<open>generateTask\<close> and \<^verbatim>\<open>assignTask\<close> leave it on server 1, and a server
  with given health, queues and load.\<close>

definition queued_task :: "nat \<Rightarrow> priority \<Rightarrow> int \<Rightarrow> int \<Rightarrow> task" where
  "queued_task i p arrival time =
     \<lparr>task_id = i, priority = p, arrivalTime = arrival, processingTime = time,
      remainingTime = time, slaDeadline = arrival + slaTarget p, assignedServer = Some 1,
      completionTime = None, responseTime = None, status = Processing, failed = False,
      creationTimestamp = 0\<rparr>"

definition example_server :: "health \<Rightarrow> task_ref list \<Rightarrow> task_ref list \<Rightarrow> task_ref list \<Rightarrow> int \<Rightarrow> server" where
  "example_server h qh qm ql load =
     \<lparr>server_id = 1, currentLoad = load, capacity = 100, weight = 1, healthStatus = h,
      responseTimeHistory = [],
      taskQueues = (\<lambda>p. case p of High \<Rightarrow> qh | Medium \<Rightarrow> qm | Low \<Rightarrow> ql),
      processingTasks = qh @ qm @ ql, totalProcessed = 0, uptime = 100, lastHealthCheck = 0,
      failureTime = None, recoveryTime = None, creationTime = 0\<rparr>"

text \<open>Four tasks queued on one healthy server: two high (800 and 2500 left), one
  medium, one low.\<close>

definition four_tasks :: sim where
  "four_tasks =
     new_simulator\<lparr>heap := (\<lambda>_. blank_task)
                      (0 := queued_task 1 High 0 800, 1 := queued_task 2 High 0 2500,
                       2 := queued_task 3 Medium 0 1500, 3 := queued_task 4 Low 0 500),
                   tasks := [0, 1, 2, 3], nextRef := 4, currentTaskId := 5,
                   simulationTime := 1,
                   servers := [example_server Healthy [0, 1] [2] [3] 5300]\<rparr>"

text \<open>Two tasks, one high and one low, queued on a server that has failed.\<close>

definition two_queued :: sim where
  "two_queued =
     new_simulator\<lparr>heap := (\<lambda>_. blank_task)
                      (0 := queued_task 1 High 0 800, 1 := queued_task 2 Low 0 500),
                   tasks := [0, 1], nextRef := 2, currentTaskId := 3, simulationTime := 1,
                   servers := [example_server Failed [0] [] [1] 1300]\<rparr>"

text \<open>A run that ages a queued task. The controls are set to one server, one task, a
  processing time of 9000000 for every task and a failure rate of 0, and the simulator is
  reset. The first task arrives with draws of 0.9, which give it low priority. Then 8501
  ticks pass. Then the task count is raised to 4 and three more tasks arrive, with draws of
  0.5, which give them medium priority. This is the order in which the timers of a started
  simulation call the operations when the task count is raised during a pause: the
  arrival timer fires every 125 ms, the tick timer every 1000 ms. \<open>draws r t\<close> are the
  inputs of an operation whose random draws are all \<open>r\<close>, made when the clock reads \<open>t\<close>.\<close>

definition hog_config :: config where
  "hog_config =
     default_config\<lparr>serverCount := 1, taskCount := 1, taskProcessingTimeMin := 9000000,
                    taskProcessingTimeMax := 9000000, serverFailureRate := 0\<rparr>"

definition draws :: "real \<Rightarrow> int \<Rightarrow> env" where
  "draws r t = \<lparr>random = (\<lambda>_. r), now = t\<rparr>"

definition tick :: "sim \<Rightarrow> sim" where
  "tick s = snd (processSimulationStep (draws (1 / 2) (1000 * (simulationTime s + 2))) s)"

definition arrival :: "real \<Rightarrow> sim \<Rightarrow> sim" where
  "arrival r s = snd (generateTask (draws r (1000 * (simulationTime s + 1) + 500)) s)"

definition hog_start :: sim where
  "hog_start =
     arrival (9 / 10)
       (resetSimulation (draws (1 / 2) 1000)
          ((resetSimulation (draws (1 / 2) 0) new_simulator)\<lparr>config := hog_config\<rparr>))"

definition hog_aged :: sim where
  "hog_aged = (tick ^^ 8501) hog_start"

definition hog_crowded :: sim where
  "hog_crowded =
     (arrival (1 / 2) ^^ 3) (hog_aged\<lparr>config := hog_config\<lparr>taskCount := 4\<rparr>\<rparr>)"

text \<open>What holds along the run: \<open>lone_hog k\<close> after \<open>k\<close> ticks, while task 0 is alone on the
  server, and \<open>crowd m\<close> after \<open>m\<close> of the three later arrivals.\<close>

definition lone_hog :: "int \<Rightarrow> sim \<Rightarrow> bool" where
  "lone_hog k s =
     ((\<exists>srv. servers s = [srv] \<and> usable srv \<and> taskQueues srv High = []
             \<and> taskQueues srv Medium = [] \<and> taskQueues srv Low = [0])
      \<and> simulationTime s = k \<and> tasks s = [0] \<and> nextRef s = 1 \<and> config s = hog_config
      \<and> status (heap s 0) = Processing \<and> slaDeadline (heap s 0) = 10000
      \<and> remainingTime (heap s 0) = 9000000 - 1000 * k
      \<and> priority (heap s 0) = (if k \<le> 7000 then Low else if k \<le> 8500 then Medium else High))"

definition crowd :: "nat \<Rightarrow> sim \<Rightarrow> bool" where
  "crowd m s =
     ((\<exists>srv. servers s = [srv] \<and> usable srv \<and> taskQueues srv High = []
             \<and> taskQueues srv Medium = [1..<Suc m] \<and> taskQueues srv Low = [0])
      \<and> simulationTime s = 8501 \<and> tasks s = [0..<Suc m] \<and> nextRef s = Suc m
      \<and> config s = hog_config\<lparr>taskCount := 4\<rparr>
      \<and> status (heap s 0) = Processing \<and> slaDeadline (heap s 0) = 10000
      \<and> remainingTime (heap s 0) = 499000 \<and> priority (heap s 0) = High
      \<and> (\<forall>x \<in> {1..m}. status (heap s x) = Processing \<and> slaDeadline (heap s x) = 13501
                         \<and> remainingTime (heap s x) = 9000000 \<and> priority (heap s x) = Medium))"

text \<open>A simulator with one generated task whose shares were normalised from 60/60/30.\<close>

definition one_task_running :: sim where
  "one_task_running =
     (snd (generateTask env0 (resetSimulation env0 new_simulator)))
       \<lparr>config := normalizePriorityDistribution shares_60_60_30\<rparr>"


section \<open>Properties\<close>

subsection \<open>Consistent hashing\<close>

lemma decimal_value_snoc:
  "decimal_value (str @ [c]) = 10 * decimal_value str + (of_char c - 48)"
  by (simp add: decimal_value_def)

lemma of_char_digit_char: "d < 10 \<Longrightarrow> (of_char (digit_char d) :: nat) = 48 + d"
  by (simp add: digit_char_def)

text \<open>\<open>toString\<close> gives the decimal digits of the number.\<close>

lemma decimal_value_toString: "decimal_value (toString n) = n"
proof (induction n rule: toString.induct)
  case (1 n)
  show ?case
  proof (cases "n < 10")
    case True
    then show ?thesis
      using decimal_value_snoc [of "[]" "digit_char n"]
      by (simp add: toString.simps [of n] of_char_digit_char decimal_value_def)
  next
    case False
    then have "decimal_value (toString (n div 10)) = n div 10" using "1.IH" by simp
    then show ?thesis
      using False by (simp add: toString.simps [of n] decimal_value_snoc of_char_digit_char)
  qed
qed

lemma sint_word_of_int_wrap32: "sint (word_of_int x :: 32 word) = wrap32 x"
  unfolding wrap32_def by (simp add: int_word_sint)

lemma hash_step_wrap32: "hash_step h c = wrap32 (h * 31 + of_char c)"
proof -
  have "hash_step h c = sint (word_of_int ((shl32 h 5 - h) + of_char c) :: 32 word)"
    by (simp add: hash_step_def and32_def Let_def)
  also have "(word_of_int ((shl32 h 5 - h) + of_char c) :: 32 word)
             = word_of_int (h * 31 + of_char c)"
    unfolding shl32_def by (simp add: push_bit_eq_mult mult.commute)
  finally show ?thesis by (simp only: sint_word_of_int_wrap32)
qed

lemma foldl_hash_step:
  "foldl hash_step a str = foldl (\<lambda>h c. wrap32 (h * 31 + of_char c)) a str"
  by (induction str arbitrary: a) (simp_all add: hash_step_wrap32)

lemma simpleHash_spec: "simpleHash str = \<bar>spec_rolling_hash str\<bar>"
  by (simp add: simpleHash_def spec_rolling_hash_def foldl_hash_step)

lemma simpleHash_range: "0 \<le> simpleHash str \<and> simpleHash str \<le> 2 ^ 31"
proof (cases str rule: rev_cases)
  case Nil
  then show ?thesis by (simp add: simpleHash_def)
next
  case (snoc ys y)
  have "- (2 ^ 31) \<le> wrap32 x \<and> wrap32 x < 2 ^ 31" for x
    unfolding wrap32_def by simp
  then show ?thesis
    using snoc by (simp add: simpleHash_def hash_step_wrap32 abs_le_iff less_imp_le minus_le_iff)
qed

text \<open>
  C8. For a non-empty list of healthy servers, \<^verbatim>\<open>consistentHashingSelection\<close> returns the
  element at position \<open>abs(h) mod length\<close>, where \<open>h\<close> is the rolling hash
  \<open>h * 31 + charCode\<close> over the decimal string of the task id, every step wrapped to a
  signed 32-bit integer. The result depends on the task only through its id: the same id
  and the same list give the same server.
\<close>

theorem consistentHashingSelection_spec:
  assumes "healthyServers \<noteq> []"
  shows "consistentHashingSelection healthyServers t
           = Some (healthyServers ! (nat \<bar>spec_rolling_hash (toString (task_id t))\<bar>
                                     mod length healthyServers))
         \<and> (task_id t' = task_id t \<longrightarrow>
              consistentHashingSelection healthyServers t'
                = consistentHashingSelection healthyServers t)"
  using assms
  by (simp add: consistentHashingSelection_def simpleHash_spec Let_def nat_mod_distrib)

theorem consistentHashingSelection_spec_witness:
  "[10, 20, 30 :: nat] \<noteq> []
   \<and> consistentHashingSelection [10, 20, 30 :: nat] (blank_task\<lparr>task_id := 12\<rparr>) = Some 10
   \<and> spec_rolling_hash (toString 12) = 1569"
proof -
  have ne: "[10, 20, 30 :: nat] \<noteq> []" by simp
  have h: "spec_rolling_hash (toString 12) = 1569" by code_simp
  from consistentHashingSelection_spec [OF ne, of "blank_task\<lparr>task_id := 12\<rparr>" blank_task] h
  show ?thesis by simp
qed

subsection \<open>Percentiles\<close>





















lemma clamped_index_less: "0 < n \<Longrightarrow> clamped_index n p < n"
  unfolding clamped_index_def by auto
















subsection \<open>Normalisation of the priority shares\<close>

text \<open>
  C4, as the specification states it: after \<^verbatim>\<open>normalizePriorityDistribution\<close> the three
  shares sum to 100. With high and medium at 60 the low share is clamped at 0 and the sum
  stays 120.
\<close>

theorem normalize_sum_counterexample:
  "share_total (normalizePriorityDistribution shares_60_60_30) = 120
   \<and> share_total (normalizePriorityDistribution shares_60_60_30) \<noteq> 100"
  by (simp add: share_total_def normalizePriorityDistribution_def shares_60_60_30_def Let_def)

text \<open>
  C4, amended. \<^verbatim>\<open>normalizePriorityDistribution\<close> changes the low share only: when the
  shares do not sum to 100 it becomes \<open>100 - high - medium\<close> clamped to \<open>0 .. 100\<close>. The sum
  is 100 afterwards exactly when it was 100 before or \<open>high + medium\<close> lies in \<open>0 .. 100\<close>.
\<close>

theorem normalize_low_share_only:
  "priorityDistribution (normalizePriorityDistribution c) High = priorityDistribution c High
   \<and> priorityDistribution (normalizePriorityDistribution c) Medium = priorityDistribution c Medium
   \<and> priorityDistribution (normalizePriorityDistribution c) Low =
       (if share_total c = 100 then priorityDistribution c Low
        else max 0 (min 100 (100 - priorityDistribution c High - priorityDistribution c Medium)))
   \<and> ((share_total (normalizePriorityDistribution c) = 100) =
        (share_total c = 100
         \<or> (0 \<le> priorityDistribution c High + priorityDistribution c Medium
            \<and> priorityDistribution c High + priorityDistribution c Medium \<le> 100)))"
  by (auto simp add: share_total_def normalizePriorityDistribution_def Let_def)

subsection \<open>Round robin\<close>

lemma rr_selections_eq:
  "srvs \<noteq> [] \<Longrightarrow> rr_selections srvs (c mod length srvs) m
      = map (\<lambda>k. Some (srvs ! ((c + k) mod length srvs))) [0..<m]"
proof (induction m arbitrary: c)
  case 0
  then show ?case by simp
next
  case (Suc m)
  have "rr_selections srvs (Suc c mod length srvs) m
        = map (\<lambda>k. Some (srvs ! ((Suc c + k) mod length srvs))) [0..<m]"
    using Suc.IH [of "Suc c"] Suc.prems by simp
  moreover have "[Suc 0..<Suc m] = map Suc [0..<m]"
    by (simp only: map_Suc_upt)
  ultimately show ?case using Suc.prems
    by (simp add: roundRobinSelection_def mod_Suc_eq upt_conv_Cons del: upt_Suc)
qed

lemma count_residue:
  "i < n \<Longrightarrow>
   length (filter (\<lambda>k. k mod n = i) [0..<m]) = m div n + (if i < m mod n then 1 else 0)"
proof (induction m)
  case 0
  then show ?case by simp
next
  case (Suc m)
  show ?case
  proof (cases "Suc (m mod n) = n")
    case True
    then have "Suc m mod n = 0" "Suc m div n = Suc (m div n)"
      by (simp_all add: mod_Suc div_Suc)
    then show ?thesis using Suc True by auto
  next
    case False
    then have "Suc m mod n = Suc (m mod n)" "Suc m div n = m div n"
      by (simp_all add: mod_Suc div_Suc)
    then show ?thesis using Suc False by auto
  qed
qed

lemma count_list_map_nth:
  assumes "distinct xs" and "i < length xs"
  shows "count_list (map (\<lambda>k. Some (xs ! (k mod length xs))) ks) (Some (xs ! i))
         = length (filter (\<lambda>k. k mod length xs = i) ks)"
proof -
  have "0 < length xs"
    using assms(2) by (cases xs) simp_all
  then have "k mod length xs < length xs" for k
    by (rule mod_less_divisor)
  then have "(xs ! (k mod length xs) = xs ! i) = (k mod length xs = i)" for k
    using assms by (simp add: nth_eq_iff_index_eq)
  then show ?thesis by (induction ks) simp_all
qed

lemma ceil_div_nat:
  fixes m n :: nat
  assumes "n > 0"
  shows "(m + n - 1) div n = m div n + (if m mod n = 0 then 0 else 1)"
proof -
  have "m + n - 1 = (m mod n + n - 1) + (m div n) * n"
    using assms by (simp add: algebra_simps)
  then have "(m + n - 1) div n = ((m mod n + n - 1) + (m div n) * n) div n"
    by simp
  also have "\<dots> = m div n + (m mod n + n - 1) div n"
    using assms by (simp only: div_mult_self1)
  finally have split: "(m + n - 1) div n = m div n + (m mod n + n - 1) div n" .
  have "(m mod n + n - 1) div n = (if m mod n = 0 then 0 else 1)"
  proof (cases "m mod n = 0")
    case True
    then show ?thesis using assms by simp
  next
    case False
    have lt: "m mod n - 1 < n" using assms by (simp add: less_imp_diff_less)
    have "m mod n + n - 1 = n + (m mod n - 1)" using False by simp
    then have "(m mod n + n - 1) div n = (n + (m mod n - 1)) div n" by simp
    also have "\<dots> = 1" using lt assms by simp
    finally show ?thesis using False by simp
  qed
  with split show ?thesis by simp
qed

text \<open>
  C5. Against a fixed non-empty list of \<open>N\<close> distinct servers, \<open>M\<close> consecutive round-robin
  selections from cursor 0 follow the input order \<open>s0, s1, ..., s(N-1), s0, ...\<close>, and
  every server is chosen \<open>floor(M/N)\<close> or \<open>ceil(M/N)\<close> times. (This holds for every \<open>M\<close>,
  so also for \<open>M \<ge> N\<close>.)
\<close>

theorem roundRobin_order_and_fairness:
  assumes "srvs \<noteq> []" and "distinct srvs" and "i < length srvs"
  shows "rr_selections srvs 0 m = map (\<lambda>k. Some (srvs ! (k mod length srvs))) [0..<m]
         \<and> (count_list (rr_selections srvs 0 m) (Some (srvs ! i)) = m div length srvs
            \<or> count_list (rr_selections srvs 0 m) (Some (srvs ! i))
                = (m + length srvs - 1) div length srvs)"
proof -
  let ?n = "length srvs"
  have n0: "?n > 0" using assms(1) by simp
  have eq: "rr_selections srvs 0 m = map (\<lambda>k. Some (srvs ! (k mod ?n))) [0..<m]"
    using rr_selections_eq [OF assms(1), of 0 m] by simp
  have cnt: "count_list (rr_selections srvs 0 m) (Some (srvs ! i))
             = m div ?n + (if i < m mod ?n then 1 else 0)"
    using eq count_list_map_nth [OF assms(2) assms(3)] count_residue [OF assms(3)] by simp
  have "(m + ?n - 1) div ?n = m div ?n + (if m mod ?n = 0 then 0 else 1)"
    using ceil_div_nat [OF n0] .
  with cnt eq show ?thesis by auto
qed

theorem roundRobin_order_and_fairness_witness:
  "[1, 2, 3 :: nat] \<noteq> [] \<and> distinct [1, 2, 3 :: nat] \<and> (0 :: nat) < length [1, 2, 3 :: nat]
   \<and> rr_selections [1, 2, 3 :: nat] 0 6 = [Some 1, Some 2, Some 3, Some 1, Some 2, Some 3]
   \<and> count_list (rr_selections [1, 2, 3 :: nat] 0 6) (Some 1) = 2"
proof -
  have a: "[1, 2, 3 :: nat] \<noteq> []" "distinct [1, 2, 3 :: nat]" "(0 :: nat) < length [1, 2, 3 :: nat]"
    by simp_all
  have r: "rr_selections [1, 2, 3 :: nat] 0 6 = [Some 1, Some 2, Some 3, Some 1, Some 2, Some 3]"
    by code_simp
  from roundRobin_order_and_fairness [OF a, of 6] r show ?thesis by simp
qed

subsection \<open>The scheduling pass\<close>

lemma complete_task_heap:
  "complete_task r (srv, s) = (srv', s') \<Longrightarrow>
     remainingTime (heap s' x) = remainingTime (heap s x)
     \<and> taskQueues srv' = taskQueues srv \<and> healthStatus srv' = healthStatus srv"
  by (auto simp: complete_task_def Let_def)

lemma advanced_cong:
  "(\<And>x. x \<in> set q \<Longrightarrow> remainingTime (heap s x) = remainingTime (heap s' x)) \<Longrightarrow>
   advanced n s q = advanced n s' q"
  unfolding advanced_def eligible_def
  by (metis (mono_tags, lifting) filter_cong)

lemma filter_queue_spec:
  "distinct q \<Longrightarrow> filter_queue q (n, srv, s) = (kept, n', srv', s') \<Longrightarrow>
     n' = n + length (advanced n s q)
     \<and> (\<forall>x. remainingTime (heap s' x)
            = (if x \<in> set (advanced n s q) then advance (remainingTime (heap s x)) else remainingTime (heap s x)))
     \<and> taskQueues srv' = taskQueues srv
     \<and> kept = filter (\<lambda>x. x \<notin> set (advanced n s q) \<or> advance (remainingTime (heap s x)) > 0) q"
proof (induction q arbitrary: n srv s kept n' srv' s')
  case Nil
  then show ?case by (simp add: advanced_def)
next
  case (Cons r rs)
  have d: "distinct rs" "r \<notin> set rs" using Cons.prems(1) by simp_all
  show ?case
  proof (cases "n \<ge> maxProcessingPerStep")
    case True
    then obtain k where k: "filter_queue rs (n, srv, s) = (k, n', srv', s')" "kept = r # k"
      using Cons.prems(2) by (auto split: prod.splits)
    have a: "advanced n s (r # rs) = []" "advanced n s rs = []" using True by (simp_all add: advanced_def)
    show ?thesis using Cons.IH[OF d(1) k(1)] k(2) a by simp
  next
    case budget: False
    show ?thesis
    proof (cases "remainingTime (heap s r) \<le> 0")
      case True
      then obtain k where k: "filter_queue rs (n, srv, s) = (k, n', srv', s')" "kept = r # k"
        using Cons.prems(2) budget by (auto split: prod.splits)
      have a: "advanced n s (r # rs) = advanced n s rs" using True by (simp add: advanced_def eligible_def)
      have "r \<notin> set (advanced n s rs)" using d(2) by (auto simp: advanced_def dest: in_set_takeD)
      then show ?thesis using Cons.IH[OF d(1) k(1)] k(2) a by simp
    next
      case False
      define t1 where "t1 = (heap s r)\<lparr>remainingTime := advance (remainingTime (heap s r))\<rparr>"
      define s1 where "s1 = s\<lparr>heap := (heap s)(r := t1)\<rparr>"
      have adv: "advanced n s (r # rs) = r # advanced (Suc n) s rs"
        using False budget
        by (simp add: advanced_def eligible_def maxProcessingPerStep_def take_Cons' )
      have rn: "r \<notin> set (advanced (Suc n) s rs)" using d(2) by (auto simp: advanced_def dest: in_set_takeD)
      show ?thesis
      proof (cases "advance (remainingTime (heap s r)) \<le> 0")
        case True
        obtain srv2 s2 where c: "complete_task r (srv, s1) = (srv2, s2)" by force
        have fq: "filter_queue rs (Suc n, srv2, s2) = (kept, n', srv', s')"
          using Cons.prems(2) budget False True c
          by (simp add: Let_def advance_def s1_def t1_def)
        have h2: "remainingTime (heap s2 x) = remainingTime (heap s1 x)" "taskQueues srv2 = taskQueues srv" for x
          using complete_task_heap[OF c] by simp_all
        have same: "advanced (Suc n) s2 rs = advanced (Suc n) s rs"
          by (rule advanced_cong) (use d(2) h2 in \<open>auto simp: s1_def\<close>)
        have rem2: "remainingTime (heap s2 x) = (if x = r then advance (remainingTime (heap s r)) else remainingTime (heap s x))" for x
          using h2(1)[of x] by (simp add: s1_def t1_def)
        note ih = Cons.IH[OF d(1) fq, unfolded same]
        have kept: "kept = filter (\<lambda>x. x \<notin> set (r # advanced (Suc n) s rs) \<or> advance (remainingTime (heap s x)) > 0) rs"
          using ih d(2) by (auto simp: rem2 intro!: filter_cong)
        show ?thesis using ih adv rn True kept h2(2)
          by (simp add: rem2)
      next
        case nz: False
        obtain k where k: "filter_queue rs (Suc n, srv, s1) = (k, n', srv', s')" "kept = r # k"
          using Cons.prems(2) budget False nz
          by (auto simp add: Let_def advance_def s1_def t1_def split: prod.splits)
        have same: "advanced (Suc n) s1 rs = advanced (Suc n) s rs"
          by (rule advanced_cong) (use d(2) in \<open>auto simp: s1_def\<close>)
        have rem1: "remainingTime (heap s1 x) = (if x = r then advance (remainingTime (heap s r)) else remainingTime (heap s x))" for x
          by (simp add: s1_def t1_def)
        note ih = Cons.IH[OF d(1) k(1), unfolded same]
        have kept: "k = filter (\<lambda>x. x \<notin> set (r # advanced (Suc n) s rs) \<or> advance (remainingTime (heap s x)) > 0) rs"
          using ih d(2) by (auto simp: rem1 intro!: filter_cong)
        show ?thesis using ih adv rn nz kept k(2)
          by (simp add: rem1)
      qed
    qed
  qed
qed

lemma advanced_append:
  "advanced n s (q1 @ q2) = advanced n s q1 @ advanced (n + length (advanced n s q1)) s q2"
proof -
  let ?f1 = "filter (eligible s) q1"
  let ?k = "maxProcessingPerStep - n"
  have "length (take ?k ?f1) = min (length ?f1) ?k" by simp
  then have "?k - length ?f1 = maxProcessingPerStep - (n + length (take ?k ?f1))"
    by (simp add: min_def)
  then show ?thesis by (simp add: advanced_def)
qed

lemma process_priority_spec:
  assumes "distinct (taskQueues srv p)" and "process_priority p (n, srv, s) = (n', srv', s')"
  shows "n' = n + length (advanced n s (taskQueues srv p))
     \<and> (\<forall>x. remainingTime (heap s' x)
            = (if x \<in> set (advanced n s (taskQueues srv p)) then advance (remainingTime (heap s x)) else remainingTime (heap s x)))
     \<and> (\<forall>p'. p' \<noteq> p \<longrightarrow> taskQueues srv' p' = taskQueues srv p')
     \<and> taskQueues srv' p = filter (\<lambda>x. x \<notin> set (advanced n s (taskQueues srv p)) \<or> advance (remainingTime (heap s x)) > 0) (taskQueues srv p)"
proof (cases "n \<ge> maxProcessingPerStep")
  case True
  then have "advanced n s (taskQueues srv p) = []" by (simp add: advanced_def)
  then show ?thesis using assms(2) True by (simp add: process_priority_def)
next
  case False
  obtain kept n2 srv2 s2 where fq: "filter_queue (taskQueues srv p) (n, srv, s) = (kept, n2, srv2, s2)"
    by (metis prod_cases4)
  then have r: "n' = n2" "s' = s2" "srv' = srv2\<lparr>taskQueues := (taskQueues srv2)(p := kept)\<rparr>"
    using assms(2) False by (simp_all add: process_priority_def)
  show ?thesis using filter_queue_spec[OF assms(1) fq] r by simp
qed

lemma set_advanced: "set (advanced n s q) \<subseteq> set q"
  by (auto simp: advanced_def dest: in_set_takeD)

lemma schedule_pass_spec:
  assumes d: "distinct (queue_order srv)"
    and sp: "schedule_pass srv s = (n, srv', s')"
  shows "n = length (advanced 0 s (queue_order srv))
         \<and> (\<forall>x. remainingTime (heap s' x)
              = (if x \<in> set (advanced 0 s (queue_order srv))
                 then advance (remainingTime (heap s x)) else remainingTime (heap s x)))
         \<and> (\<forall>p. taskQueues srv' p
              = filter (\<lambda>x. x \<notin> set (advanced 0 s (queue_order srv))
                            \<or> advance (remainingTime (heap s x)) > 0) (taskQueues srv p))"
proof -
  let ?qH = "taskQueues srv High" and ?qM = "taskQueues srv Medium" and ?qL = "taskQueues srv Low"
  have dH: "distinct ?qH" and dM: "distinct ?qM" and dL: "distinct ?qL"
    and disjHM: "set ?qH \<inter> set ?qM = {}" and disjHL: "set ?qH \<inter> set ?qL = {}"
    and disjML: "set ?qM \<inter> set ?qL = {}"
    using d by (auto simp: queue_order_def)
  obtain n1 srv1 s1 where p1: "process_priority High (0, srv, s) = (n1, srv1, s1)"
    by (metis prod_cases3)
  obtain n2 srv2 s2 where p2: "process_priority Medium (n1, srv1, s1) = (n2, srv2, s2)"
    by (metis prod_cases3)
  have p3: "process_priority Low (n2, srv2, s2) = (n, srv', s')"
    using sp p1 p2 by (simp add: schedule_pass_def)
  let ?a1 = "advanced 0 s ?qH"
  note r1 = process_priority_spec [OF dH p1]
  have q1M: "taskQueues srv1 Medium = ?qM" and q1L: "taskQueues srv1 Low = ?qL"
    using r1 by simp_all
  have a1: "set ?a1 \<subseteq> set ?qH" by (rule set_advanced)
  have rem1: "x \<notin> set ?qH \<Longrightarrow> remainingTime (heap s1 x) = remainingTime (heap s x)" for x
    using r1 a1 by auto
  have rem1M: "x \<in> set ?qM \<Longrightarrow> remainingTime (heap s1 x) = remainingTime (heap s x)" for x
    using rem1 disjHM by blast
  let ?a2 = "advanced n1 s ?qM"
  have same2: "advanced n1 s1 ?qM = ?a2"
    by (rule advanced_cong) (use rem1 disjHM in auto)
  note r2 = process_priority_spec [OF dM [folded q1M] p2, unfolded q1M same2]
  have a2: "set ?a2 \<subseteq> set ?qM" by (rule set_advanced)
  have q2L: "taskQueues srv2 Low = ?qL" using r2 q1L by simp
  have rem2: "x \<notin> set ?qH \<Longrightarrow> x \<notin> set ?qM \<Longrightarrow> remainingTime (heap s2 x) = remainingTime (heap s x)" for x
    using r2 a2 rem1 by auto
  have rem2L: "x \<in> set ?qL \<Longrightarrow> remainingTime (heap s2 x) = remainingTime (heap s x)" for x
    using rem2 disjHL disjML by blast
  let ?a3 = "advanced n2 s ?qL"
  have same3: "advanced n2 s2 ?qL = ?a3"
    by (rule advanced_cong) (use rem2 disjHL disjML in auto)
  note r3 = process_priority_spec [OF dL [folded q2L] p3, unfolded q2L same3]
  have a3: "set ?a3 \<subseteq> set ?qL" by (rule set_advanced)
  have n1: "n1 = length ?a1" and n2: "n2 = n1 + length ?a2" and n3: "n = n2 + length ?a3"
    using r1 r2 r3 by simp_all
  have all: "advanced 0 s (queue_order srv) = ?a1 @ ?a2 @ ?a3"
    unfolding queue_order_def
    by (simp add: advanced_append [of 0 s ?qH] advanced_append [of "length ?a1" s ?qM] n1 n2)
  have len: "n = length (advanced 0 s (queue_order srv))"
    using all n1 n2 n3 by simp
  have rem: "remainingTime (heap s' x)
              = (if x \<in> set (advanced 0 s (queue_order srv))
                 then advance (remainingTime (heap s x)) else remainingTime (heap s x))" for x
  proof -
    consider "x \<in> set ?a1" | "x \<in> set ?a2" | "x \<in> set ?a3"
      | "x \<notin> set ?a1" "x \<notin> set ?a2" "x \<notin> set ?a3" by blast
    then show ?thesis
    proof cases
      case 1
      then have "x \<notin> set ?a2" "x \<notin> set ?a3" using a1 a2 a3 disjHM disjHL by auto
      then show ?thesis using 1 r1 r2 r3 all by simp
    next
      case 2
      then have "x \<notin> set ?a1" "x \<notin> set ?a3" using a1 a2 a3 disjHM disjML by auto
      then show ?thesis using 2 r1 r2 r3 all by simp
    next
      case 3
      then have "x \<notin> set ?a1" "x \<notin> set ?a2" using a1 a2 a3 disjHL disjML by auto
      then show ?thesis using 3 r1 r2 r3 all by simp
    next
      case 4
      then show ?thesis using r1 r2 r3 all by simp
    qed
  qed
  have queues: "taskQueues srv' p
              = filter (\<lambda>x. x \<notin> set (advanced 0 s (queue_order srv))
                            \<or> advance (remainingTime (heap s x)) > 0) (taskQueues srv p)" for p
  proof (cases p)
    case High
    have "taskQueues srv' High = taskQueues srv1 High" using r2 r3 by simp
    also have "\<dots> = filter (\<lambda>x. x \<notin> set ?a1 \<or> advance (remainingTime (heap s x)) > 0) ?qH"
      using r1 by simp
    also have "\<dots> = filter (\<lambda>x. x \<notin> set (advanced 0 s (queue_order srv))
                            \<or> advance (remainingTime (heap s x)) > 0) ?qH"
      by (rule filter_cong) (use all a2 a3 disjHM disjHL in auto)
    finally show ?thesis using High by simp
  next
    case Medium
    have "taskQueues srv' Medium = taskQueues srv2 Medium" using r3 by simp
    also have "\<dots> = filter (\<lambda>x. x \<notin> set ?a2 \<or> advance (remainingTime (heap s1 x)) > 0) ?qM"
      using r2 by simp
    also have "\<dots> = filter (\<lambda>x. x \<notin> set (advanced 0 s (queue_order srv))
                            \<or> advance (remainingTime (heap s x)) > 0) ?qM"
      by (rule filter_cong) (use all a1 a3 disjHM disjML rem1M in auto)
    finally show ?thesis using Medium by simp
  next
    case Low
    have "taskQueues srv' Low = filter (\<lambda>x. x \<notin> set ?a3 \<or> advance (remainingTime (heap s2 x)) > 0) ?qL"
      using r3 by simp
    also have "\<dots> = filter (\<lambda>x. x \<notin> set (advanced 0 s (queue_order srv))
                            \<or> advance (remainingTime (heap s x)) > 0) ?qL"
      by (rule filter_cong) (use all a1 a2 disjHL disjML rem2L in auto)
    finally show ?thesis using Low by simp
  qed
  show ?thesis using len rem queues by blast
qed

lemma advanced_by_pass_eq: "advanced_by_pass srv s = advanced 0 s (queue_order srv)"
  by (simp add: advanced_by_pass_def advanced_def)

lemmas example_defs = four_tasks_def two_queued_def
  example_server_def queued_task_def new_simulator_def blank_task_def

lemmas pass_defs = processServerTasks_def schedule_pass_def process_priority_def
  maxProcessingPerStep_def complete_task_def push_history_def drain_failed_def fail_task_def

text \<open>
  C7. In the scheduling pass of a server that has not failed and whose queues hold each
  task at most once (as they do in every reachable state, \<open>reachable_queues_distinct\<close>
  below, and from pass to pass within a tick), the tasks advanced are the first three eligible ones in the order
  high queue, medium queue, low queue: at most 3 advancements (the final value of
  \<^verbatim>\<open>processedThisStep\<close>), each subtracting \<open>min(1000, remainingTime)\<close> from the advanced
  task and leaving every other task's remaining time alone, the medium queue reached only
  with what the high queue left of the budget, the low queue with what both left. The
  queues lose exactly the advanced tasks that reached 0.
\<close>

theorem schedule_pass_budget_and_order:
  assumes "healthStatus srv \<noteq> Failed" and "distinct (queue_order srv)"
  shows "processServerTasks srv s = snd (schedule_pass srv s)
         \<and> fst (schedule_pass srv s) = length (advanced_by_pass srv s)
         \<and> length (advanced_by_pass srv s) \<le> 3
         \<and> advanced_by_pass srv s
             = take 3 (filter (\<lambda>r. 0 < remainingTime (heap s r))
                         (taskQueues srv High @ taskQueues srv Medium @ taskQueues srv Low))
         \<and> remainingTime (heap (snd (processServerTasks srv s)) x)
             = (if x \<in> set (advanced_by_pass srv s)
                then remainingTime (heap s x) - min 1000 (remainingTime (heap s x))
                else remainingTime (heap s x))
         \<and> taskQueues (fst (processServerTasks srv s)) p
             = filter (\<lambda>r. r \<notin> set (advanced_by_pass srv s)
                           \<or> 0 < remainingTime (heap s r) - min 1000 (remainingTime (heap s r)))
                 (taskQueues srv p)"
proof -
  obtain n srv' s' where sp: "schedule_pass srv s = (n, srv', s')"
    by (metis prod_cases3)
  have len: "length (advanced_by_pass srv s) \<le> 3"
    by (simp add: advanced_by_pass_def maxProcessingPerStep_def)
  have unfolded: "advanced_by_pass srv s
             = take 3 (filter (\<lambda>r. 0 < remainingTime (heap s r))
                         (taskQueues srv High @ taskQueues srv Medium @ taskQueues srv Low))"
    by (simp add: advanced_by_pass_def maxProcessingPerStep_def queue_order_def
          eligible_def [abs_def])
  have pst: "processServerTasks srv s = (srv', s')"
    using assms(1) sp by (simp add: processServerTasks_def)
  note spec = schedule_pass_spec [OF assms(2) sp, folded advanced_by_pass_eq, unfolded advance_def]
  have a: "fst (schedule_pass srv s) = length (advanced_by_pass srv s)"
    using spec sp by simp
  have b: "remainingTime (heap (snd (processServerTasks srv s)) x)
             = (if x \<in> set (advanced_by_pass srv s)
                then remainingTime (heap s x) - min 1000 (remainingTime (heap s x))
                else remainingTime (heap s x))"
    using spec pst by simp
  have c: "taskQueues (fst (processServerTasks srv s)) p
             = filter (\<lambda>r. r \<notin> set (advanced_by_pass srv s)
                           \<or> 0 < remainingTime (heap s r) - min 1000 (remainingTime (heap s r)))
                 (taskQueues srv p)"
    using spec pst by simp
  have d: "processServerTasks srv s = snd (schedule_pass srv s)"
    using pst sp by simp
  show ?thesis
    by (rule conjI [OF d conjI [OF a conjI [OF len conjI [OF unfolded conjI [OF b c]]]]])
qed

theorem schedule_pass_budget_and_order_witness:
  "healthStatus (example_server Healthy [0, 1] [2] [3] 5300) \<noteq> Failed
   \<and> distinct (queue_order (example_server Healthy [0, 1] [2] [3] 5300))
   \<and> advanced_by_pass (example_server Healthy [0, 1] [2] [3] 5300) four_tasks = [0, 1, 2]
   \<and> fst (schedule_pass (example_server Healthy [0, 1] [2] [3] 5300) four_tasks) = 3
   \<and> remainingTime (heap (snd (processServerTasks (example_server Healthy [0, 1] [2] [3] 5300)
                                 four_tasks)) 1) = 1500
   \<and> remainingTime (heap (snd (processServerTasks (example_server Healthy [0, 1] [2] [3] 5300)
                                 four_tasks)) 3) = 500"
proof -
  let ?srv = "example_server Healthy [0, 1] [2] [3] 5300"
  have h: "healthStatus ?srv \<noteq> Failed" by (simp add: example_server_def)
  have d: "distinct (queue_order ?srv)" by (simp add: example_server_def queue_order_def)
  have a: "advanced_by_pass ?srv four_tasks = [0, 1, 2]"
    by (simp add: advanced_by_pass_def eligible_def queue_order_def maxProcessingPerStep_def
          example_defs)
  have r: "remainingTime (heap four_tasks 1) = 2500" "remainingTime (heap four_tasks 3) = 500"
    by (simp_all add: example_defs)
  note t1 = schedule_pass_budget_and_order [OF h d, of four_tasks 1 High]
  note t3 = schedule_pass_budget_and_order [OF h d, of four_tasks 3 High]
  have n: "fst (schedule_pass ?srv four_tasks) = 3"
    using t1 [THEN conjunct2, THEN conjunct1] a by simp
  have r1: "remainingTime (heap (snd (processServerTasks ?srv four_tasks)) 1) = 1500"
    using t1 [THEN conjunct2, THEN conjunct2, THEN conjunct2, THEN conjunct2, THEN conjunct1]
      a r(1) by simp
  have r3: "remainingTime (heap (snd (processServerTasks ?srv four_tasks)) 3) = 500"
    using t3 [THEN conjunct2, THEN conjunct2, THEN conjunct2, THEN conjunct2, THEN conjunct1]
      a r(2) by simp
  show ?thesis
    by (rule conjI [OF h conjI [OF d conjI [OF a conjI [OF n conjI [OF r1 r3]]]]])
qed

subsection \<open>The pass of a failed server\<close>

lemma foldl_fail_task:
  "heap (foldl (\<lambda>s' r. fail_task r s') s xs) x
     = (if x \<in> set xs then (heap s x)\<lparr>failed := True, status := TaskFailed\<rparr> else heap s x)
   \<and> failedTasks (foldl (\<lambda>s' r. fail_task r s') s xs) = failedTasks s @ xs"
proof (induction xs arbitrary: s)
  case Nil
  show ?case by simp
next
  case (Cons r rs)
  have h: "heap (fail_task r s) x
            = (if x = r then (heap s x)\<lparr>failed := True, status := TaskFailed\<rparr> else heap s x)"
    and f: "failedTasks (fail_task r s) = failedTasks s @ [r]"
    by (simp_all add: fail_task_def)
  show ?case using Cons.IH [of "fail_task r s"] h f by (simp only: foldl_Cons) auto
qed

text \<open>
  C6. The pass of a server whose \<^verbatim>\<open>healthStatus\<close> is \<^verbatim>\<open>failed\<close> marks every task in its three
  queues as failed (the flag and the status; nothing else of the task changes, and no
  other task changes), appends these tasks to the failed collection in the order high,
  medium, low, and leaves the three queues and \<^verbatim>\<open>processingTasks\<close> empty and the load 0.
\<close>

theorem failed_server_drains_queues:
  assumes "healthStatus srv = Failed"
  shows "heap (snd (processServerTasks srv s)) x
           = (if x \<in> set (queue_order srv)
              then (heap s x)\<lparr>failed := True, status := TaskFailed\<rparr> else heap s x)
         \<and> failedTasks (snd (processServerTasks srv s)) = failedTasks s @ queue_order srv
         \<and> taskQueues (fst (processServerTasks srv s)) p = []
         \<and> processingTasks (fst (processServerTasks srv s)) = []
         \<and> currentLoad (fst (processServerTasks srv s)) = 0"
proof -
  have "processServerTasks srv s = drain_failed srv s"
    using assms by (simp add: processServerTasks_def)
  then show ?thesis
    using foldl_fail_task [of s "queue_order srv" x]
    by (cases p) (simp_all add: drain_failed_def Let_def queue_order_def del: foldl_append)
qed

theorem failed_server_drains_queues_witness:
  "healthStatus (example_server Failed [0] [] [1] 1300) = Failed
   \<and> queue_order (example_server Failed [0] [] [1] 1300) = [0, 1]
   \<and> status (heap (snd (processServerTasks (example_server Failed [0] [] [1] 1300) two_queued)) 0)
       = TaskFailed
   \<and> status (heap (snd (processServerTasks (example_server Failed [0] [] [1] 1300) two_queued)) 1)
       = TaskFailed
   \<and> failedTasks (snd (processServerTasks (example_server Failed [0] [] [1] 1300) two_queued))
       = [0, 1]
   \<and> taskQueues (fst (processServerTasks (example_server Failed [0] [] [1] 1300) two_queued)) High
       = []
   \<and> taskQueues (fst (processServerTasks (example_server Failed [0] [] [1] 1300) two_queued)) Low
       = []
   \<and> currentLoad (fst (processServerTasks (example_server Failed [0] [] [1] 1300) two_queued)) = 0"
proof -
  let ?srv = "example_server Failed [0] [] [1] 1300"
  have h: "healthStatus ?srv = Failed" by (simp add: example_server_def)
  have q: "queue_order ?srv = [0, 1]" by (simp add: example_server_def queue_order_def)
  have f: "failedTasks two_queued = []" by (simp add: example_defs)
  note t0 = failed_server_drains_queues [OF h, of two_queued 0 High]
  note t1 = failed_server_drains_queues [OF h, of two_queued 1 Low]
  have s0: "status (heap (snd (processServerTasks ?srv two_queued)) 0) = TaskFailed"
    using t0 [THEN conjunct1] q by simp
  have s1: "status (heap (snd (processServerTasks ?srv two_queued)) 1) = TaskFailed"
    using t1 [THEN conjunct1] q by simp
  have ft: "failedTasks (snd (processServerTasks ?srv two_queued)) = [0, 1]"
    using t0 [THEN conjunct2, THEN conjunct1] q f by simp
  have qh: "taskQueues (fst (processServerTasks ?srv two_queued)) High = []"
    using t0 [THEN conjunct2, THEN conjunct2, THEN conjunct1] .
  have ql: "taskQueues (fst (processServerTasks ?srv two_queued)) Low = []"
    using t1 [THEN conjunct2, THEN conjunct2, THEN conjunct1] .
  have ld: "currentLoad (fst (processServerTasks ?srv two_queued)) = 0"
    using t0 [THEN conjunct2, THEN conjunct2, THEN conjunct2, THEN conjunct2] .
  show ?thesis
    by (rule conjI [OF h conjI [OF q conjI [OF s0 conjI [OF s1 conjI [OF ft
          conjI [OF qh conjI [OF ql ld]]]]]]])
qed

subsection \<open>What the operations leave alone\<close>

lemma frame_refl: "frame s s"
  by (simp add: frame_def)

lemma frame_trans: "frame s s1 \<Longrightarrow> frame s1 s2 \<Longrightarrow> frame s s2"
  by (simp add: frame_def)

lemma frame_foldl:
  "(\<And>x t. frame t (f t x)) \<Longrightarrow> frame s (foldl f s xs)"
proof (induction xs arbitrary: s)
  case Nil
  show ?case by (simp add: frame_refl)
next
  case (Cons x xs)
  have "frame s (f s x)" by (rule Cons.prems)
  moreover have "frame (f s x) (foldl f (f s x) xs)" by (rule Cons.IH) (rule Cons.prems)
  ultimately show ?case by (simp add: frame_trans[of s "f s x"])
qed

lemma pass_frame_refl: "pass_frame s s"
  by (simp add: pass_frame_def frame_def)

lemma pass_frame_trans: "pass_frame s s1 \<Longrightarrow> pass_frame s1 s2 \<Longrightarrow> pass_frame s s2"
  by (simp add: pass_frame_def frame_def)

lemma pass_frame_imp_frame: "pass_frame s s' \<Longrightarrow> frame s s'"
  by (simp add: pass_frame_def)

lemma pass_frame_foldl:
  "(\<And>x t. pass_frame t (f t x)) \<Longrightarrow> pass_frame s (foldl f s xs)"
proof (induction xs arbitrary: s)
  case Nil
  show ?case by (simp add: pass_frame_refl)
next
  case (Cons x xs)
  have "pass_frame s (f s x)" by (rule Cons.prems)
  moreover have "pass_frame (f s x) (foldl f (f s x) xs)" by (rule Cons.IH) (rule Cons.prems)
  ultimately show ?case by (simp add: pass_frame_trans[of s "f s x"])
qed

lemma pass_frame_fail_task: "pass_frame s (fail_task r s)"
  by (simp add: pass_frame_def frame_def fail_task_def)

lemma pass_frame_complete_task: "complete_task r (srv, s) = (srv', s') \<Longrightarrow> pass_frame s s'"
  by (auto simp: pass_frame_def frame_def complete_task_def Let_def)

lemma pass_frame_filter_queue:
  "filter_queue q (n, srv, s) = (kept, n', srv', s') \<Longrightarrow> pass_frame s s'"
proof (induction q arbitrary: n srv s kept n' srv' s')
  case Nil
  then show ?case by (simp add: pass_frame_refl)
next
  case (Cons r rs)
  show ?case
  proof (cases "n \<ge> maxProcessingPerStep \<or> remainingTime (heap s r) \<le> 0")
    case True
    then obtain k where "filter_queue rs (n, srv, s) = (k, n', srv', s')"
      using Cons.prems by (auto split: prod.splits if_splits)
    then show ?thesis by (rule Cons.IH)
  next
    case False
    define s1 where "s1 = s\<lparr>heap := (heap s)(r := (heap s r)\<lparr>remainingTime :=
                       remainingTime (heap s r) - min 1000 (remainingTime (heap s r))\<rparr>)\<rparr>"
    have f1: "pass_frame s s1" by (simp add: pass_frame_def frame_def s1_def)
    show ?thesis
    proof (cases "remainingTime (heap s r) - min 1000 (remainingTime (heap s r)) \<le> 0")
      case True
      obtain srv2 s2 where c: "complete_task r (srv, s1) = (srv2, s2)" by force
      have "filter_queue rs (n + 1, srv2, s2) = (kept, n', srv', s')"
        using Cons.prems False True c by (simp add: Let_def s1_def)
      then have "pass_frame s2 s'" by (rule Cons.IH)
      with f1 pass_frame_complete_task [OF c] show ?thesis by (blast intro: pass_frame_trans)
    next
      case nz: False
      obtain k where "filter_queue rs (n + 1, srv, s1) = (k, n', srv', s')"
        using Cons.prems False nz by (auto simp: Let_def s1_def split: prod.splits)
      then have "pass_frame s1 s'" by (rule Cons.IH)
      with f1 show ?thesis by (rule pass_frame_trans)
    qed
  qed
qed

lemma pass_frame_process_priority:
  "process_priority p (n, srv, s) = (n', srv', s') \<Longrightarrow> pass_frame s s'"
  by (auto simp: process_priority_def pass_frame_refl split: if_splits prod.splits
           dest: pass_frame_filter_queue)

lemma pass_frame_schedule_pass: "schedule_pass srv s = (n, srv', s') \<Longrightarrow> pass_frame s s'"
proof -
  assume sp: "schedule_pass srv s = (n, srv', s')"
  obtain n1 srv1 s1 where p1: "process_priority High (0, srv, s) = (n1, srv1, s1)"
    by (metis prod_cases3)
  obtain n2 srv2 s2 where p2: "process_priority Medium (n1, srv1, s1) = (n2, srv2, s2)"
    by (metis prod_cases3)
  have p3: "process_priority Low (n2, srv2, s2) = (n, srv', s')"
    using sp p1 p2 by (simp add: schedule_pass_def)
  show ?thesis
    using pass_frame_process_priority [OF p1] pass_frame_process_priority [OF p2]
      pass_frame_process_priority [OF p3] by (blast intro: pass_frame_trans)
qed

lemma pass_frame_drain_failed: "drain_failed srv s = (srv', s') \<Longrightarrow> pass_frame s s'"
proof -
  have "pass_frame s (foldl (\<lambda>s' r. fail_task r s') s xs)" for xs
    by (rule pass_frame_foldl) (rule pass_frame_fail_task)
  then show "drain_failed srv s = (srv', s') \<Longrightarrow> pass_frame s s'"
    by (auto simp: drain_failed_def Let_def simp del: foldl_append)
qed

lemma pass_frame_processServerTasks: "processServerTasks srv s = (srv', s') \<Longrightarrow> pass_frame s s'"
  unfolding processServerTasks_def
  by (cases "schedule_pass srv s")
     (auto split: if_splits dest: pass_frame_drain_failed pass_frame_schedule_pass)

lemma frame_servers_update: "frame s s' \<Longrightarrow> frame s (s'\<lparr>servers := x\<rparr>)"
  by (simp add: frame_def)

lemma frame_process_all_servers: "frame s (process_all_servers s)"
proof -
  have "frame t (case processServerTasks (servers t ! i) t of
                   (srv, s'') \<Rightarrow> s''\<lparr>servers := (servers s'')[i := srv]\<rparr>)" for t i
  proof (cases "processServerTasks (servers t ! i) t")
    case (Pair srv s'')
    then show ?thesis
      using pass_frame_processServerTasks [OF Pair] by (simp add: pass_frame_def frame_def)
  qed
  then show ?thesis unfolding process_all_servers_def by (rule frame_foldl)
qed

lemma frame_updateServerHealth: "frame s (updateServerHealth e s)"
  by (simp add: frame_def updateServerHealth_def)

lemma frame_tick_core: "frame s (tick_core e s)"
proof -
  let ?s1 = "s\<lparr>simulationTime := simulationTime s + 1\<rparr>"
  let ?s2 = "if simulationTime ?s1 mod 3 = 0 then updateServerHealth e ?s1 else ?s1"
  have "frame s ?s1" by (simp add: frame_def)
  moreover have "frame ?s1 ?s2" by (simp add: frame_refl frame_updateServerHealth)
  moreover have "frame ?s2 (process_all_servers ?s2)" by (rule frame_process_all_servers)
  ultimately show ?thesis unfolding tick_core_def Let_def by (blast intro: frame_trans)
qed

lemma frame_simulateRandomFailure: "frame s (snd (simulateRandomFailure e s))"
  by (simp add: simulateRandomFailure_def Let_def frame_def)

lemma frame_recoverAllServers: "frame s (recoverAllServers s)"
  by (simp add: recoverAllServers_def frame_def)

lemma frame_recoveryTimeout: "frame s (recoveryTimeout i s)"
  by (simp add: recoveryTimeout_def frame_def)

lemma touches_only_fail_task: "touches_only r s (fail_task r s)"
  by (simp add: touches_only_def fail_task_def)

lemma select_state:
  "selectServerByAlgorithm e hs t s = (res, s1) \<Longrightarrow>
   s1 = s\<lparr>roundRobinCounter := roundRobinCounter s1\<rparr>"
  by (auto simp: selectServerByAlgorithm_def split: if_splits prod.splits)

lemma touches_only_assignTask: "touches_only r s (snd (assignTask e r s))"
proof -
  let ?hs = "filter (\<lambda>i. usable (servers s ! i)) [0..<length (servers s)]"
  obtain res s1 where sel: "selectServerByAlgorithm e ?hs (heap s r) s = (res, s1)"
    by (cases "selectServerByAlgorithm e ?hs (heap s r) s")
  have s1: "s1 = s\<lparr>roundRobinCounter := roundRobinCounter s1\<rparr>"
    using select_state [OF sel] .
  have t1: "touches_only r s s1"
    by (subst s1) (simp add: touches_only_def)
  have t2: "touches_only r s (fail_task r s1)"
    using t1 touches_only_fail_task [of r s1] by (simp add: touches_only_def)
  show ?thesis
  proof (cases "length ?hs = 0")
    case True
    then show ?thesis by (simp add: assignTask_def Let_def touches_only_fail_task)
  next
    case False
    show ?thesis
    proof (cases res)
      case (Inl err)
      then show ?thesis using False sel t1 by (simp add: assignTask_def Let_def)
    next
      case (Inr opt)
      show ?thesis
      proof (cases opt)
        case None
        then show ?thesis using False sel Inr t2 by (simp add: assignTask_def Let_def)
      next
        case (Some i)
        then show ?thesis using False sel Inr t1
          by (simp add: assignTask_def Let_def touches_only_def)
      qed
    qed
  qed
qed

lemma generateTask_effect:
  "metrics (snd (generateTask e s)) = metrics s
   \<and> tasks (snd (generateTask e s)) = tasks s @ [nextRef s]
   \<and> nextRef (snd (generateTask e s)) = Suc (nextRef s)
   \<and> (\<forall>x. x \<noteq> nextRef s \<longrightarrow> heap (snd (generateTask e s)) x = heap s x)"
  unfolding generateTask_def Let_def
  using touches_only_assignTask
  by (simp add: touches_only_def split del: if_split)

lemma resetSimulation_fields:
  "simulationState (resetSimulation e s) = Stopped
   \<and> simulationTime (resetSimulation e s) = 0
   \<and> currentTaskId (resetSimulation e s) = 1
   \<and> roundRobinCounter (resetSimulation e s) = 0
   \<and> tasks (resetSimulation e s) = []
   \<and> completedTasks (resetSimulation e s) = []
   \<and> failedTasks (resetSimulation e s) = []
   \<and> metrics (resetSimulation e s) = fresh_metrics
   \<and> servers (resetSimulation e s) = map (new_server e (config s)) [1..serverCount (config s)]
   \<and> config (resetSimulation e s) = config s
   \<and> heap (resetSimulation e s) = heap s
   \<and> nextRef (resetSimulation e s) = nextRef s"
  by (simp add: resetSimulation_def createServers_def)

subsection \<open>The metrics of a tick\<close>

lemma push_all_Cons_present:
  "m k = Some xs \<Longrightarrow> push_all ((k, v) # kvs) m = push_all kvs (m(k \<mapsto> xs @ [v]))"
  by (simp add: push_metric_def)

lemma push_all_Cons_missing:
  "m k = None \<Longrightarrow> push_all ((k, v) # kvs) m = (Some (TypeError k), m)"
  by (simp add: push_metric_def)

lemma dom_push_all: "dom (snd (push_all kvs m)) = dom m"
proof (induction kvs arbitrary: m)
  case Nil
  show ?case by simp
next
  case (Cons kv kvs)
  obtain k v where kv: "kv = (k, v)" by (cases kv)
  show ?case
  proof (cases "m k")
    case None
    then show ?thesis unfolding kv push_all_Cons_missing [of m k, OF None] by simp
  next
    case (Some xs)
    have "dom (m(k \<mapsto> xs @ [v])) = dom m" using Some by auto
    then show ?thesis
      unfolding kv push_all_Cons_present [of m k, OF Some] using Cons.IH [of "m(k \<mapsto> xs @ [v])"]
      by (simp only:)
  qed
qed

lemma push_all_present:
  "fst ` set kvs \<subseteq> dom m \<Longrightarrow> fst (push_all kvs m) = None"
proof (induction kvs arbitrary: m)
  case Nil
  show ?case by simp
next
  case (Cons kv kvs)
  obtain k v where kv: "kv = (k, v)" by (cases kv)
  then obtain xs where xs: "m k = Some xs" using Cons.prems by auto
  have "fst ` set kvs \<subseteq> dom (m(k \<mapsto> xs @ [v]))" using Cons.prems by auto
  then have "fst (push_all kvs (m(k \<mapsto> xs @ [v]))) = None" by (rule Cons.IH)
  then show ?case unfolding kv push_all_Cons_present [of m k, OF xs] .
qed

lemma push_all_missing:
  "fst ` set kvs \<subseteq> dom m \<Longrightarrow> k \<notin> dom m \<Longrightarrow>
   fst (push_all (kvs @ (k, v) # rest) m) = Some (TypeError k)"
proof (induction kvs arbitrary: m)
  case Nil
  then have "m k = None" by (simp add: domIff)
  then show ?case by (simp add: push_metric_def)
next
  case (Cons kv kvs)
  obtain k' v' where kv: "kv = (k', v')" by (cases kv)
  then obtain xs where xs: "m k' = Some xs" using Cons.prems by auto
  have "fst ` set kvs \<subseteq> dom (m(k' \<mapsto> xs @ [v']))" "k \<notin> dom (m(k' \<mapsto> xs @ [v']))"
    using Cons.prems xs by auto
  then have "fst (push_all (kvs @ (k, v) # rest) (m(k' \<mapsto> xs @ [v']))) = Some (TypeError k)"
    by (rule Cons.IH)
  then show ?case unfolding kv append_Cons push_all_Cons_present [of m k', OF xs] .
qed

lemma dom_fresh_metrics:
  "dom fresh_metrics =
     {''responseTime'', ''throughput'', ''resourceUtilization'', ''loadFairness'',
      ''slaCompliance'', ''failureRate'', ''timestamps'', ''responseTimePercentiles.p50'',
      ''responseTimePercentiles.p90'', ''responseTimePercentiles.p95'',
      ''priorityMetrics.high.sla'', ''priorityMetrics.medium.sla'', ''priorityMetrics.low.sla''}"
  unfolding fresh_metrics_def by (simp add: insert_commute)

lemma calculateAdvancedMetrics_ok:
  "metrics_ok s \<Longrightarrow> fst (calculateAdvancedMetrics s) = None"
  unfolding calculateAdvancedMetrics_def Let_def metrics_ok_def
  by (simp add: split_beta push_all_present dom_fresh_metrics del: push_all.simps
           split del: if_split)

lemma calculateMetrics_throws:
  assumes "metrics_ok s" and "taskProgress s = Some tp"
  shows "fst (calculateMetrics s) = Some (TypeError ''successRate'')"
proof -
  have miss: "''successRate'' \<notin> dom (metrics s)"
    using assms(1) by (simp add: metrics_ok_def dom_fresh_metrics)
  have pres: "fst ` set [(''responseTime'', a), (''throughput'', b), (''resourceUtilization'', c),
                     (''loadFairness'', d)] \<subseteq> dom (metrics s)" for a b c d :: real
    using assms(1) by (simp add: metrics_ok_def dom_fresh_metrics)
  have "fst (push_all ([(''responseTime'', a), (''throughput'', b), (''resourceUtilization'', c),
                     (''loadFairness'', d)] @ (''successRate'', x) # rest) (metrics s)) = Some (TypeError ''successRate'')"
    for a b c d x rest
    using push_all_missing [OF pres miss] .
  then show "fst (calculateMetrics s) = Some (TypeError ''successRate'')"
    using assms(2) unfolding calculateMetrics_def Let_def
    by (simp add: split_beta del: push_all.simps split del: if_split)
qed

lemma same_tasks_trans: "same_tasks s s1 \<Longrightarrow> same_tasks s1 s2 \<Longrightarrow> same_tasks s s2"
  by (simp add: same_tasks_def)

lemma same_tasks_calculateAdvancedMetrics: "same_tasks s (snd (calculateAdvancedMetrics s))"
  unfolding same_tasks_def calculateAdvancedMetrics_def Let_def
  by (simp add: split_beta dom_push_all del: push_all.simps split del: if_split)

lemma same_tasks_calculateMetrics: "same_tasks s (snd (calculateMetrics s))"
  unfolding same_tasks_def calculateMetrics_def Let_def
  by (cases "taskProgress s")
     (simp_all add: split_beta dom_push_all del: push_all.simps split del: if_split)

lemma same_tasks_updateTaskProgress: "same_tasks s (updateTaskProgress s)"
  by (simp add: same_tasks_def updateTaskProgress_def Let_def)

lemma same_tasks_end_check: "same_tasks s (end_check s)"
  by (simp add: same_tasks_def end_check_def stopSimulation_def Let_def)

lemma taskProgress_updateTaskProgress: "\<exists>tp. taskProgress (updateTaskProgress s) = Some tp"
  by (simp add: updateTaskProgress_def Let_def)

lemma processSimulationStep_unfold:
  "processSimulationStep e s =
     (case calculateAdvancedMetrics (ageTasks (tick_core e s)) of
        (Some err, s5) \<Rightarrow> (Some err, s5)
      | (None, s5) \<Rightarrow>
          (case calculateMetrics (updateTaskProgress s5) of
             (Some err, s7) \<Rightarrow> (Some err, s7)
           | (None, s7) \<Rightarrow> (None, end_check s7)))"
  by (simp add: processSimulationStep_def tick_core_def Let_def)

lemma same_tasks_tick:
  "same_tasks (ageTasks (tick_core e s)) (snd (processSimulationStep e s))"
proof -
  let ?s4 = "ageTasks (tick_core e s)"
  obtain e5 s5 where c5: "calculateAdvancedMetrics ?s4 = (e5, s5)" by (cases "calculateAdvancedMetrics ?s4")
  have t5: "same_tasks ?s4 s5" using same_tasks_calculateAdvancedMetrics [of ?s4] c5 by simp
  obtain e7 s7 where c7: "calculateMetrics (updateTaskProgress s5) = (e7, s7)"
    by (cases "calculateMetrics (updateTaskProgress s5)")
  have t7: "same_tasks s5 s7"
    using same_tasks_calculateMetrics [of "updateTaskProgress s5"] c7
      same_tasks_updateTaskProgress [of s5] by (auto intro: same_tasks_trans)
  have t8: "same_tasks s5 (end_check s7)"
    using t7 same_tasks_end_check [of s7] by (rule same_tasks_trans)
  show ?thesis
    unfolding processSimulationStep_unfold c5
    using t5 t7 t8 c7 by (cases e5; cases e7) (auto intro: same_tasks_trans)
qed

lemma metrics_ok_frame: "frame s s' \<Longrightarrow> metrics_ok s \<Longrightarrow> metrics_ok s'"
  by (simp add: frame_def metrics_ok_def)

lemma metrics_ok_same_tasks: "same_tasks s s' \<Longrightarrow> metrics_ok s \<Longrightarrow> metrics_ok s'"
  by (simp add: same_tasks_def metrics_ok_def)

lemma metrics_ok_ageTasks: "metrics_ok s \<Longrightarrow> metrics_ok (ageTasks s)"
  by (simp add: metrics_ok_def ageTasks_def)

lemma step_throws_if_metrics_ok:
  assumes "metrics_ok s"
  shows "fst (processSimulationStep e s) = Some (TypeError ''successRate'')"
proof -
  let ?s4 = "ageTasks (tick_core e s)"
  have ok4: "metrics_ok ?s4"
    using assms frame_tick_core [of s e] by (blast intro: metrics_ok_frame metrics_ok_ageTasks)
  obtain e5 s5 where c5: "calculateAdvancedMetrics ?s4 = (e5, s5)" by (cases "calculateAdvancedMetrics ?s4")
  have e5: "e5 = None" using calculateAdvancedMetrics_ok [OF ok4] c5 by simp
  have ok5: "metrics_ok s5"
    using same_tasks_calculateAdvancedMetrics [of ?s4] c5 ok4 by (auto intro: metrics_ok_same_tasks)
  have ok6: "metrics_ok (updateTaskProgress s5)"
    using ok5 same_tasks_updateTaskProgress by (rule metrics_ok_same_tasks [rotated])
  obtain tp where tp: "taskProgress (updateTaskProgress s5) = Some tp"
    using taskProgress_updateTaskProgress by blast
  have "fst (calculateMetrics (updateTaskProgress s5)) = Some (TypeError ''successRate'')"
    using calculateMetrics_throws [OF ok6 tp] .
  then show ?thesis
    unfolding processSimulationStep_unfold c5 e5
    by (cases "calculateMetrics (updateTaskProgress s5)") auto
qed

lemma ageTasks_fields:
  "metrics (ageTasks s) = metrics s \<and> tasks (ageTasks s) = tasks s
   \<and> nextRef (ageTasks s) = nextRef s"
  by (simp add: ageTasks_def)

lemma tick_fields:
  "tasks (snd (processSimulationStep e s)) = tasks s
   \<and> nextRef (snd (processSimulationStep e s)) = nextRef s
   \<and> dom (metrics (snd (processSimulationStep e s))) = dom (metrics s)
   \<and> heap (snd (processSimulationStep e s)) = heap (ageTasks (tick_core e s))"
  using same_tasks_tick [of e s] frame_tick_core [of s e] ageTasks_fields [of "tick_core e s"]
  by (simp add: same_tasks_def frame_def)

subsection \<open>The queues stay duplicate-free\<close>

lemma queue_ok_empty: "(\<And>p. taskQueues srv p = []) \<Longrightarrow> queue_ok n srv"
  by (simp add: queue_ok_def queue_order_def)

lemma queue_ok_same_queues: "taskQueues srv' = taskQueues srv \<Longrightarrow> queue_ok n srv \<Longrightarrow> queue_ok n srv'"
  by (simp add: queue_ok_def queue_order_def)

lemma queue_ok_enqueue:
  assumes "queue_ok r srv"
  shows "queue_ok (Suc r) (enqueue r t srv)"
proof -
  have below: "\<forall>x \<in> set (queue_order srv). x < r" and d: "distinct (queue_order srv)"
    using assms by (simp_all add: queue_ok_def)
  then have nr: "r \<notin> set (queue_order srv)" by auto
  have elems: "set (queue_order (enqueue r t srv)) = insert r (set (queue_order srv))"
    by (cases "priority t") (auto simp: queue_order_def enqueue_def)
  have "distinct (queue_order (enqueue r t srv))"
    using d nr by (cases "priority t") (auto simp: queue_order_def enqueue_def)
  moreover have "\<forall>x \<in> set (queue_order (enqueue r t srv)). x < Suc r"
    unfolding elems using below by (simp add: less_Suc_eq)
  ultimately show ?thesis by (simp add: queue_ok_def)
qed

lemma queue_ok_Suc: "queue_ok n srv \<Longrightarrow> queue_ok (Suc n) srv"
  by (auto simp: queue_ok_def)

lemma queue_ok_processServerTasks:
  assumes "queue_ok n srv" and "processServerTasks srv s = (srv', s')"
  shows "queue_ok n srv'"
proof (cases "healthStatus srv = Failed")
  case True
  then have "taskQueues srv' p = []" for p
    using assms(2) by (cases p) (auto simp: processServerTasks_def drain_failed_def Let_def)
  then show ?thesis by (rule queue_ok_empty)
next
  case False
  obtain k where sp: "schedule_pass srv s = (k, srv', s')"
    using assms(2) False by (cases "schedule_pass srv s") (simp add: processServerTasks_def)
  have d: "distinct (queue_order srv)" using assms(1) by (simp add: queue_ok_def)
  let ?P = "\<lambda>x. x \<notin> set (advanced 0 s (queue_order srv))
                  \<or> 0 < advance (remainingTime (heap s x))"
  have q: "taskQueues srv' p = filter ?P (taskQueues srv p)" for p
    using schedule_pass_spec [OF d sp] by simp
  have "queue_order srv' = filter ?P (queue_order srv)"
    unfolding queue_order_def [of srv'] q by (simp add: queue_order_def)
  then show ?thesis using assms(1) by (auto simp: queue_ok_def)
qed

lemma queues_ok_list_update:
  "queues_ok s \<Longrightarrow> queue_ok (nextRef s) srv \<Longrightarrow> queues_ok (s\<lparr>servers := (servers s)[i := srv]\<rparr>)"
  using set_update_subset_insert [of "servers s" i srv] by (auto simp: queues_ok_def)

lemma queues_ok_pass_step:
  assumes "queues_ok t"
  shows "queues_ok (case processServerTasks (servers t ! i) t of
                      (srv, s'') \<Rightarrow> s''\<lparr>servers := (servers s'')[i := srv]\<rparr>)"
proof (cases "processServerTasks (servers t ! i) t")
  case (Pair srv s'')
  have pf: "servers s'' = servers t" "nextRef s'' = nextRef t"
    using pass_frame_processServerTasks [OF Pair] by (simp_all add: pass_frame_def frame_def)
  have ok'': "queues_ok s''" using assms pf by (simp add: queues_ok_def)
  show ?thesis
  proof (cases "i < length (servers t)")
    case True
    then have "queue_ok (nextRef t) (servers t ! i)" using assms by (simp add: queues_ok_def)
    then have "queue_ok (nextRef s'') srv"
      using queue_ok_processServerTasks [OF _ Pair] pf by simp
    then show ?thesis using Pair queues_ok_list_update [OF ok''] by simp
  next
    case False
    then have "(servers s'')[i := srv] = servers s''" using pf by (simp add: not_less list_update_beyond)
    then show ?thesis using Pair ok'' by (simp add: queues_ok_def)
  qed
qed

lemma queues_ok_foldl:
  "(\<And>t x. queues_ok t \<Longrightarrow> queues_ok (f t x)) \<Longrightarrow> queues_ok s \<Longrightarrow> queues_ok (foldl f s xs)"
  by (induction xs arbitrary: s) simp_all

lemma queues_ok_process_all_servers: "queues_ok s \<Longrightarrow> queues_ok (process_all_servers s)"
  unfolding process_all_servers_def
  by (rule queues_ok_foldl) (rule queues_ok_pass_step)

lemma taskQueues_health_check: "taskQueues (health_check e c k srv) = taskQueues srv"
proof -
  define srv1 where "srv1 = (if healthStatus srv = Healthy \<and> random e k < serverFailureRate c * 3
                             then mark_failed e c srv else srv)"
  define srv2 where "srv2 = (if healthStatus srv1 = Failed \<and> due (now e) (recoveryTime srv1)
                             then srv1\<lparr>healthStatus := Recovering\<rparr> else srv1)"
  define srv3 where "srv3 = (if healthStatus srv2 = Healthy
                  then (if ratio_above srv2 80 then srv2\<lparr>healthStatus := Degraded\<rparr> else srv2)
                  else if healthStatus srv2 = Degraded
                  then (if ratio_below srv2 60 then srv2\<lparr>healthStatus := Healthy\<rparr> else srv2)
                  else srv2)"
  have "taskQueues srv1 = taskQueues srv" by (simp add: srv1_def mark_failed_def)
  moreover have "taskQueues srv2 = taskQueues srv1" by (simp add: srv2_def)
  moreover have "taskQueues srv3 = taskQueues srv2" by (simp add: srv3_def)
  moreover have "taskQueues (health_check e c k srv) = taskQueues srv3"
    unfolding health_check_def srv1_def [symmetric] Let_def
    unfolding srv2_def [symmetric] srv3_def [symmetric] by simp
  ultimately show ?thesis by simp
qed

lemma queues_ok_updateServerHealth: "queues_ok s \<Longrightarrow> queues_ok (updateServerHealth e s)"
  by (auto simp: queues_ok_def updateServerHealth_def in_set_enumerate_eq
           intro: queue_ok_same_queues [OF taskQueues_health_check])

lemma queues_ok_tick_core: "queues_ok s \<Longrightarrow> queues_ok (tick_core e s)"
proof -
  assume ok: "queues_ok s"
  let ?s1 = "s\<lparr>simulationTime := simulationTime s + 1\<rparr>"
  let ?s2 = "if simulationTime ?s1 mod 3 = 0 then updateServerHealth e ?s1 else ?s1"
  have "queues_ok ?s1" using ok by (simp add: queues_ok_def)
  then have "queues_ok ?s2" by (simp add: queues_ok_updateServerHealth)
  then have "queues_ok (process_all_servers ?s2)" by (rule queues_ok_process_all_servers)
  then show ?thesis unfolding tick_core_def Let_def .
qed

lemma queues_ok_tick: "queues_ok s \<Longrightarrow> queues_ok (snd (processSimulationStep e s))"
  using queues_ok_tick_core [of s e] same_tasks_tick [of e s]
  by (simp add: queues_ok_def same_tasks_def ageTasks_def)

lemma queues_ok_simulateRandomFailure:
  "queues_ok s \<Longrightarrow> queues_ok (snd (simulateRandomFailure e s))"
proof -
  assume ok: "queues_ok s"
  have "queues_ok (s\<lparr>servers := (servers s)[i := mark_failed e (config s) (servers s ! i)]\<rparr>)"
    if "i < length (servers s)" for i
  proof -
    have "queue_ok (nextRef s) (servers s ! i)" using ok that by (simp add: queues_ok_def)
    then have "queue_ok (nextRef s) (mark_failed e (config s) (servers s ! i))"
      by (rule queue_ok_same_queues [rotated]) (simp add: mark_failed_def)
    then show ?thesis by (rule queues_ok_list_update [OF ok])
  qed
  moreover have "xs ! nat k < length (servers s)"
    if "xs = filter (\<lambda>i. usable (servers s ! i)) [0..<length (servers s)]"
      "0 \<le> k" "k < int (length xs)" for xs k
  proof -
    have "xs ! nat k \<in> set xs" using that(2,3) by simp
    then show ?thesis unfolding that(1) by simp
  qed
  ultimately show ?thesis using ok by (simp add: simulateRandomFailure_def Let_def)
qed

lemma queues_ok_recoverAllServers: "queues_ok s \<Longrightarrow> queues_ok (recoverAllServers s)"
  by (auto simp: queues_ok_def recoverAllServers_def recover_server_def
           intro: queue_ok_same_queues [rotated])

lemma queues_ok_recoveryTimeout: "queues_ok s \<Longrightarrow> queues_ok (recoveryTimeout i s)"
proof (cases "i < length (servers s)")
  case True
  assume ok: "queues_ok s"
  then have "queue_ok (nextRef s) (servers s ! i)" using True by (simp add: queues_ok_def)
  then have "queue_ok (nextRef s) (finish_recovery (servers s ! i))"
    by (rule queue_ok_same_queues [rotated]) (simp add: finish_recovery_def)
  then show ?thesis using True queues_ok_list_update [OF ok] by (simp add: recoveryTimeout_def)
next
  case False
  then show "queues_ok s \<Longrightarrow> queues_ok (recoveryTimeout i s)" by (simp add: recoveryTimeout_def)
qed

lemma queues_ok_resetSimulation: "queues_ok (resetSimulation e s)"
  by (auto simp: queues_ok_def resetSimulation_def createServers_def new_server_def
           intro: queue_ok_empty)

lemma queues_ok_assignTask:
  assumes "\<forall>srv \<in> set (servers s). queue_ok r srv" and "nextRef s = Suc r"
  shows "queues_ok (snd (assignTask e r s))"
proof -
  let ?hs = "filter (\<lambda>i. usable (servers s ! i)) [0..<length (servers s)]"
  have ok: "queues_ok s" using assms by (auto simp: queues_ok_def intro: queue_ok_Suc)
  obtain res s1 where sel: "selectServerByAlgorithm e ?hs (heap s r) s = (res, s1)"
    by (cases "selectServerByAlgorithm e ?hs (heap s r) s")
  have s1: "s1 = s\<lparr>roundRobinCounter := roundRobinCounter s1\<rparr>"
    using select_state [OF sel] .
  have srv1: "servers s1 = servers s" "nextRef s1 = nextRef s"
    by (subst s1, simp)+
  have ok1: "queues_ok s1" using ok srv1 by (simp add: queues_ok_def)
  have okf: "queues_ok (fail_task r t)" if "queues_ok t" for t
    using that by (simp add: queues_ok_def fail_task_def)
  show ?thesis
  proof (cases "length ?hs = 0")
    case True
    then show ?thesis using okf [OF ok] by (simp add: assignTask_def Let_def)
  next
    case False
    show ?thesis
    proof (cases res)
      case (Inl err)
      then show ?thesis using False sel ok1 by (simp add: assignTask_def Let_def)
    next
      case (Inr opt)
      show ?thesis
      proof (cases opt)
        case None
        then show ?thesis using False sel Inr okf [OF ok1] by (simp add: assignTask_def Let_def)
      next
        case (Some i)
        let ?t = "(heap s1 r)\<lparr>assignedServer := Some (server_id (servers s1 ! i)),
                               status := Processing\<rparr>"
        have res: "snd (assignTask e r s)
                     = s1\<lparr>heap := (heap s1)(r := ?t),
                          servers := (servers s1)[i := enqueue r ?t (servers s1 ! i)]\<rparr>"
          using False sel Inr Some by (simp add: assignTask_def Let_def)
        show ?thesis
        proof (cases "i < length (servers s1)")
          case True
          then have "queue_ok r (servers s1 ! i)" using assms(1) srv1 by simp
          then have "queue_ok (nextRef s1) (enqueue r ?t (servers s1 ! i))"
            using queue_ok_enqueue srv1 assms(2) by simp
          then have "queues_ok (s1\<lparr>servers := (servers s1)[i := enqueue r ?t (servers s1 ! i)]\<rparr>)"
            by (rule queues_ok_list_update [OF ok1])
          then show ?thesis unfolding res by (simp add: queues_ok_def)
        next
          case False
          then show ?thesis unfolding res using ok1 by (simp add: queues_ok_def not_less list_update_beyond)
        qed
      qed
    qed
  qed
qed

lemma queues_ok_generateTask: "queues_ok s \<Longrightarrow> queues_ok (snd (generateTask e s))"
  unfolding generateTask_def Let_def
  by (rule queues_ok_assignTask) (simp_all add: queues_ok_def)

subsection \<open>Invariants of the reachable states\<close>

lemma step_preserves:
  assumes "sim_step s s'" and "metrics_ok s" and "tasks_ok s" and "queues_ok s"
  shows "metrics_ok s' \<and> tasks_ok s' \<and> queues_ok s'"
  using assms(1)
proof cases
  case (step_reset e)
  then show ?thesis using resetSimulation_fields [of e s] queues_ok_resetSimulation [of e s]
    by (simp add: metrics_ok_def tasks_ok_def)
next
  case (step_generate e)
  then show ?thesis
    using generateTask_effect [of e s] assms(2,3) queues_ok_generateTask [OF assms(4), of e]
    by (auto simp: metrics_ok_def tasks_ok_def)
next
  case (step_tick e)
  then show ?thesis using tick_fields [of e s] assms(2,3) queues_ok_tick [OF assms(4), of e]
    by (simp add: metrics_ok_def tasks_ok_def)
next
  case (step_failure e)
  then show ?thesis
    using frame_simulateRandomFailure [of s e] assms(2,3)
      queues_ok_simulateRandomFailure [OF assms(4), of e]
    by (simp add: metrics_ok_def tasks_ok_def frame_def)
next
  case step_recover_all
  then show ?thesis
    using frame_recoverAllServers [of s] assms(2,3) queues_ok_recoverAllServers [OF assms(4)]
    by (simp add: metrics_ok_def tasks_ok_def frame_def)
next
  case (step_timeout i)
  then show ?thesis
    using frame_recoveryTimeout [of s i] assms(2,3) queues_ok_recoveryTimeout [OF assms(4), of i]
    by (simp add: metrics_ok_def tasks_ok_def frame_def)
next
  case (step_configure c)
  then show ?thesis using assms(2,3,4) by (simp add: metrics_ok_def tasks_ok_def queues_ok_def)
next
  case (step_control st)
  then show ?thesis using assms(2,3,4) by (simp add: metrics_ok_def tasks_ok_def queues_ok_def)
qed

lemma reachable_invariant: "reachable s \<Longrightarrow> metrics_ok s \<and> tasks_ok s \<and> queues_ok s"
proof (induction rule: reachable.induct)
  case (reach_init e)
  show ?case
    using resetSimulation_fields [of e new_simulator] queues_ok_resetSimulation [of e new_simulator]
    by (simp add: metrics_ok_def tasks_ok_def)
next
  case (reach_step s s')
  then show ?case using step_preserves by blast
qed

text \<open>In a reachable state, and so at the start of every tick, the queues of every server
  hold each task at most once; \<open>queues_ok_pass_step\<close> carries this through the passes of
  one tick, server by server.\<close>

lemma reachable_queues_distinct:
  "reachable s \<Longrightarrow> srv \<in> set (servers s) \<Longrightarrow> distinct (queue_order srv)"
  using reachable_invariant [of s] by (simp add: queues_ok_def queue_ok_def)

text \<open>
  C1. \<^verbatim>\<open>calculateMetrics\<close> pushes into \<^verbatim>\<open>this.metrics.successRate\<close> and
  \<^verbatim>\<open>this.metrics.completionVelocity\<close>, properties that neither the constructor nor
  \<^verbatim>\<open>resetSimulation\<close> creates and no operation adds. So in every state reachable from the
  reset that ends the constructor, every tick, with any inputs, ends in the \<^verbatim>\<open>TypeError\<close>
  of the first of the two accesses.
\<close>

theorem step_always_throws:
  assumes "reachable s"
  shows "fst (processSimulationStep e s) = Some (TypeError ''successRate'')
         \<and> metrics s ''successRate'' = None
         \<and> metrics s ''completionVelocity'' = None"
proof -
  have ok: "metrics_ok s" using reachable_invariant [OF assms] by simp
  have "''successRate'' \<notin> dom (metrics s)" "''completionVelocity'' \<notin> dom (metrics s)"
    using ok by (simp_all add: metrics_ok_def dom_fresh_metrics)
  then have "metrics s ''successRate'' = None" "metrics s ''completionVelocity'' = None"
    by (simp_all add: domIff)
  with step_throws_if_metrics_ok [OF ok, of e] show ?thesis by simp
qed

theorem step_always_throws_witness:
  "reachable (resetSimulation env0 new_simulator)
   \<and> fst (processSimulationStep env0 (resetSimulation env0 new_simulator))
       = Some (TypeError ''successRate'')"
proof -
  have r: "reachable (resetSimulation env0 new_simulator)" by (rule reach_init)
  from r step_always_throws [OF r, of env0, THEN conjunct1] show ?thesis by (rule conjI)
qed

subsection \<open>Priorities\<close>

lemma age_task_rank:
  "prio_rank (priority t) \<le> prio_rank (priority (age_task time t))
   \<and> prio_rank (priority (age_task time t)) \<le> prio_rank (priority t) + 1"
  by (cases "priority t") (simp_all add: age_task_def Let_def)

lemma foldl_age_distinct:
  "distinct xs \<Longrightarrow>
   foldl (\<lambda>h r. h(r := age_task time (h r))) h xs x
     = (if x \<in> set xs then age_task time (h x) else h x)"
proof (induction xs arbitrary: h)
  case Nil
  show ?case by simp
next
  case (Cons r rs)
  then show ?case by auto
qed

lemma ageTasks_priority:
  assumes "distinct (tasks s)"
  shows "prio_rank (priority (heap s x)) \<le> prio_rank (priority (heap (ageTasks s) x))
         \<and> prio_rank (priority (heap (ageTasks s) x)) \<le> prio_rank (priority (heap s x)) + 1"
  using foldl_age_distinct [OF assms, of "simulationTime s" "heap s" x]
    age_task_rank [of "heap s x" "simulationTime s"]
  by (simp add: ageTasks_def)

lemma step_priority:
  assumes "sim_step s s'" and "distinct (tasks s)" and "x < nextRef s"
  shows "prio_rank (priority (heap s x)) \<le> prio_rank (priority (heap s' x))
         \<and> prio_rank (priority (heap s' x)) \<le> prio_rank (priority (heap s x)) + 1"
  using assms(1)
proof cases
  case (step_reset e)
  then show ?thesis using resetSimulation_fields [of e s] by simp
next
  case (step_generate e)
  then show ?thesis using generateTask_effect [of e s] assms(3) by simp
next
  case (step_tick e)
  have f: "frame s (tick_core e s)" by (rule frame_tick_core)
  then have "distinct (tasks (tick_core e s))" using assms(2) by (simp add: frame_def)
  from ageTasks_priority [OF this, of x] f step_tick tick_fields [of e s]
  show ?thesis by (simp add: frame_def)
next
  case (step_failure e)
  then show ?thesis using frame_simulateRandomFailure [of s e] by (simp add: frame_def)
next
  case step_recover_all
  then show ?thesis using frame_recoverAllServers [of s] by (simp add: frame_def)
next
  case (step_timeout i)
  then show ?thesis using frame_recoveryTimeout [of s i] by (simp add: frame_def)
next
  case (step_configure c)
  then show ?thesis by simp
next
  case (step_control st)
  then show ?thesis by simp
qed

lemma rank_High: "prio_rank p \<le> 2 \<and> (prio_rank p = 2) = (p = High)"
  by (cases p) simp_all

text \<open>
  C9. No operation of the simulator lowers the priority of a task: over every transition
  from a reachable state, the priority of every allocated task stays or rises by one
  level (low to medium, medium to high), and high stays high. The aging rule itself,
  applied to any task at any time, raises the priority by at most one level and leaves
  high alone.
\<close>

theorem priority_only_escalates:
  "(reachable s \<and> sim_step s s' \<and> x < nextRef s \<longrightarrow>
      prio_rank (priority (heap s x)) \<le> prio_rank (priority (heap s' x))
      \<and> prio_rank (priority (heap s' x)) \<le> prio_rank (priority (heap s x)) + 1
      \<and> (priority (heap s x) = High \<longrightarrow> priority (heap s' x) = High))
   \<and> prio_rank (priority t) \<le> prio_rank (priority (age_task time t))
   \<and> prio_rank (priority (age_task time t)) \<le> prio_rank (priority t) + 1
   \<and> (priority t = High \<longrightarrow> priority (age_task time t) = High)"
proof -
  have a1: "prio_rank (priority t) \<le> prio_rank (priority (age_task time t))"
    and a2: "prio_rank (priority (age_task time t)) \<le> prio_rank (priority t) + 1"
    using age_task_rank [of t time] by simp_all
  have b: "priority t = High \<longrightarrow> priority (age_task time t) = High"
    by (simp add: age_task_def Let_def)
  have c: "prio_rank (priority (heap s x)) \<le> prio_rank (priority (heap s' x))
      \<and> prio_rank (priority (heap s' x)) \<le> prio_rank (priority (heap s x)) + 1
      \<and> (priority (heap s x) = High \<longrightarrow> priority (heap s' x) = High)"
    if r: "reachable s \<and> sim_step s s' \<and> x < nextRef s"
  proof -
    have d: "distinct (tasks s)" using reachable_invariant [of s] r by (simp add: tasks_ok_def)
    have st: "sim_step s s'" and x: "x < nextRef s" using r by simp_all
    note m = step_priority [OF st d x]
    have "priority (heap s' x) = High" if h: "priority (heap s x) = High"
    proof -
      have "2 \<le> prio_rank (priority (heap s' x))" using m h by simp
      then have "prio_rank (priority (heap s' x)) = 2"
        using rank_High [of "priority (heap s' x)"] by linarith
      then show ?thesis using rank_High [of "priority (heap s' x)"] by simp
    qed
    then show ?thesis using m by simp
  qed
  from c have c': "reachable s \<and> sim_step s s' \<and> x < nextRef s \<longrightarrow>
      prio_rank (priority (heap s x)) \<le> prio_rank (priority (heap s' x))
      \<and> prio_rank (priority (heap s' x)) \<le> prio_rank (priority (heap s x)) + 1
      \<and> (priority (heap s x) = High \<longrightarrow> priority (heap s' x) = High)"
    by (rule impI)
  show ?thesis
    by (rule conjI [OF c' conjI [OF a1 conjI [OF a2 b]]])
qed

theorem priority_only_escalates_witness:
  "reachable (snd (generateTask env0 (resetSimulation env0 new_simulator)))
   \<and> sim_step (snd (generateTask env0 (resetSimulation env0 new_simulator)))
        (snd (processSimulationStep env0
               (snd (generateTask env0 (resetSimulation env0 new_simulator)))))
   \<and> 0 < nextRef (snd (generateTask env0 (resetSimulation env0 new_simulator)))
   \<and> prio_rank (priority (heap (snd (generateTask env0 (resetSimulation env0 new_simulator))) 0))
       \<le> prio_rank (priority (heap (snd (processSimulationStep env0
               (snd (generateTask env0 (resetSimulation env0 new_simulator))))) 0))
   \<and> priority (age_task 7001 (queued_task 1 Low 0 3000)) = Medium
   \<and> priority (age_task 8501 ((queued_task 1 Low 0 3000)\<lparr>priority := Medium\<rparr>)) = High
   \<and> priority (age_task 9999 ((queued_task 1 Low 0 3000)\<lparr>priority := High\<rparr>)) = High"
proof -
  let ?s = "snd (generateTask env0 (resetSimulation env0 new_simulator))"
  have r: "reachable ?s"
    by (rule reach_step [OF reach_init step_generate])
  have st: "sim_step ?s (snd (processSimulationStep env0 ?s))"
    by (rule step_tick)
  have x: "0 < nextRef ?s"
    using generateTask_effect [of env0 "resetSimulation env0 new_simulator"] by simp
  have a: "priority (age_task 7001 (queued_task 1 Low 0 3000)) = Medium"
    "priority (age_task 8501 ((queued_task 1 Low 0 3000)\<lparr>priority := Medium\<rparr>)) = High"
    by (simp_all add: age_task_def queued_task_def Let_def)
  note t = priority_only_escalates [of ?s "snd (processSimulationStep env0 ?s)" 0
      "(queued_task 1 Low 0 3000)\<lparr>priority := High\<rparr>" 9999]
  have m: "prio_rank (priority (heap ?s 0))
             \<le> prio_rank (priority (heap (snd (processSimulationStep env0 ?s)) 0))"
    using t [THEN conjunct1] r st x by blast
  have hi: "priority (age_task 9999 ((queued_task 1 Low 0 3000)\<lparr>priority := High\<rparr>)) = High"
    using t [THEN conjunct2, THEN conjunct2, THEN conjunct2] by simp
  show ?thesis
    by (rule conjI [OF r conjI [OF st conjI [OF x conjI [OF m conjI [OF a(1) conjI [OF a(2) hi]]]]]])
qed

subsection \<open>Reset\<close>

text \<open>
  C3, as the specification states it: a reset with priority shares that do not sum to 100
  after normalisation fails and leaves the state untouched. \<^verbatim>\<open>resetSimulation\<close> does not
  look at the shares: with shares 60/60/0 (sum 120) and one task generated, the reset
  goes through and the task list is emptied.
\<close>

theorem reset_invalid_config_counterexample:
  "share_total (config one_task_running) = 120
   \<and> tasks one_task_running = [0]
   \<and> tasks (resetSimulation env0 one_task_running) = []
   \<and> resetSimulation env0 one_task_running \<noteq> one_task_running"
proof -
  have a: "share_total (config one_task_running) = 120"
    by (simp add: one_task_running_def share_total_def normalizePriorityDistribution_def
          shares_60_60_30_def Let_def)
  have "nextRef (resetSimulation env0 new_simulator) = 0"
    "tasks (resetSimulation env0 new_simulator) = []"
    using resetSimulation_fields [of env0 new_simulator] by (simp_all add: new_simulator_def)
  then have b: "tasks one_task_running = [0]"
    using generateTask_effect [of env0 "resetSimulation env0 new_simulator"]
    by (simp add: one_task_running_def)
  have c: "tasks (resetSimulation env0 one_task_running) = []"
    using resetSimulation_fields [of env0 one_task_running] by simp
  have d: "resetSimulation env0 one_task_running \<noteq> one_task_running"
    using b c by (metis list.distinct(1))
  show ?thesis by (rule conjI [OF a conjI [OF b conjI [OF c d]]])
qed

text \<open>
  C3, amended. \<^verbatim>\<open>resetSimulation\<close> validates nothing and cannot fail: for every
  configuration it reinitialises the simulator (state stopped, time 0, task id 1, cursor
  0, no tasks, nothing completed or failed, the metrics of the constructor, one fresh
  server per \<^verbatim>\<open>serverCount\<close>) and leaves the configuration as it is.
\<close>

theorem reset_always_reinitialises:
  "simulationState (resetSimulation e s) = Stopped
   \<and> simulationTime (resetSimulation e s) = 0
   \<and> currentTaskId (resetSimulation e s) = 1
   \<and> roundRobinCounter (resetSimulation e s) = 0
   \<and> tasks (resetSimulation e s) = []
   \<and> completedTasks (resetSimulation e s) = []
   \<and> failedTasks (resetSimulation e s) = []
   \<and> metrics (resetSimulation e s) = fresh_metrics
   \<and> servers (resetSimulation e s) = map (new_server e (config s)) [1..serverCount (config s)]
   \<and> config (resetSimulation e s) = config s"
  using resetSimulation_fields [of e s] by simp

subsection \<open>Aging and the queues\<close>

lemma generateTask_one_server:
  assumes srv: "servers s = [srv]" and u: "usable srv"
    and alg: "algorithm (config s) = ''roundRobin''"
    and pt: "taskProcessingTimeMax (config s) = taskProcessingTimeMin (config s)"
    and r0: "0 \<le> random e 0" "random e 0 < 1"
    and pd: "priorityDistribution (config s) = priorityDistribution default_config"
    and r1: "random e 1 = r"
  defines "p \<equiv> (if r < 1 / 5 then High else if r < 7 / 10 then Medium else Low)"
  shows "snd (generateTask e s) =
           s\<lparr>currentTaskId := currentTaskId s + 1,
             heap := (heap s)(nextRef s :=
                \<lparr>task_id = currentTaskId s, priority = p, arrivalTime = simulationTime s,
                 processingTime = taskProcessingTimeMin (config s),
                 remainingTime = taskProcessingTimeMin (config s),
                 slaDeadline = simulationTime s + slaTarget p,
                 assignedServer = Some (server_id srv),
                 completionTime = None, responseTime = None, status = Processing,
                 failed = False, creationTimestamp = now e\<rparr>),
             nextRef := nextRef s + 1, tasks := tasks s @ [nextRef s],
             roundRobinCounter := 0,
             servers := [srv\<lparr>taskQueues := (taskQueues srv)(p := taskQueues srv p @ [nextRef s]),
                            processingTasks := processingTasks srv @ [nextRef s],
                            currentLoad := currentLoad srv + taskProcessingTimeMin (config s)\<rparr>]\<rparr>"
proof -
  have f: "\<lfloor>random e 0\<rfloor> = 0" using r0 by linarith
  have pr: "(if random e 1 * 100 < real_of_int (priorityDistribution (config s) High) then High
             else if random e 1 * 100 < real_of_int (priorityDistribution (config s) High
                                              + priorityDistribution (config s) Medium) then Medium
             else Low) = p"
    unfolding pd r1 p_def by (simp add: default_config_def)
  show ?thesis
    unfolding generateTask_def Let_def pr
    by (simp add: assignTask_def selectServerByAlgorithm_def roundRobinSelection_def
        enqueue_def srv u alg pt f Let_def)
qed


lemma health_check_usable:
  assumes "usable srv" and "0 \<le> random e k" and "serverFailureRate c = 0"
  shows "usable (health_check e c k srv)"
proof -
  define srv1 where "srv1 = (if healthStatus srv = Healthy \<and> random e k < serverFailureRate c * 3
                             then mark_failed e c srv else srv)"
  define srv2 where "srv2 = (if healthStatus srv1 = Failed \<and> due (now e) (recoveryTime srv1)
                             then srv1\<lparr>healthStatus := Recovering\<rparr> else srv1)"
  define srv3 where "srv3 = (if healthStatus srv2 = Healthy
                  then (if ratio_above srv2 80 then srv2\<lparr>healthStatus := Degraded\<rparr> else srv2)
                  else if healthStatus srv2 = Degraded
                  then (if ratio_below srv2 60 then srv2\<lparr>healthStatus := Healthy\<rparr> else srv2)
                  else srv2)"
  have 1: "srv1 = srv" using assms(2,3) by (simp add: srv1_def)
  have 2: "srv2 = srv" using assms(1) by (auto simp: srv2_def 1 usable_def)
  have 3: "usable srv3" using assms(1) by (auto simp: srv3_def 2 usable_def)
  have "healthStatus (health_check e c k srv) = healthStatus srv3"
    unfolding health_check_def srv1_def [symmetric] Let_def
    unfolding srv2_def [symmetric] srv3_def [symmetric] by simp
  then show ?thesis using 3 by (simp add: usable_def)
qed

lemma tick_core_one_server:
  fixes s e srv
  defines "srv1 \<equiv> (if (simulationTime s + 1) mod 3 = 0
                     then health_check e (config s) 0 srv else srv)"
  assumes "servers s = [srv]" and "healthStatus srv1 \<noteq> Failed"
  shows "tick_core e s =
           (case schedule_pass srv1 (s\<lparr>simulationTime := simulationTime s + 1, servers := [srv1]\<rparr>) of
              (n, srv2, s2) \<Rightarrow> s2\<lparr>servers := [srv2]\<rparr>)"
proof -
  let ?s1 = "s\<lparr>simulationTime := simulationTime s + 1, servers := [srv1]\<rparr>"
  have a: "(if simulationTime (s\<lparr>simulationTime := simulationTime s + 1\<rparr>) mod 3 = 0
            then updateServerHealth e (s\<lparr>simulationTime := simulationTime s + 1\<rparr>)
            else s\<lparr>simulationTime := simulationTime s + 1\<rparr>) = ?s1"
    using assms(2) by (simp add: updateServerHealth_def srv1_def)
  obtain n srv2 s2 where sp: "schedule_pass srv1 ?s1 = (n, srv2, s2)" by (metis prod_cases3)
  have "servers s2 = [srv1]"
    using pass_frame_schedule_pass [OF sp] by (simp add: pass_frame_def)
  then have "process_all_servers ?s1 = s2\<lparr>servers := [srv2]\<rparr>"
    using sp assms(3) by (simp add: process_all_servers_def processServerTasks_def)
  then show ?thesis unfolding tick_core_def Let_def a sp by simp
qed

lemma schedule_pass_lone:
  assumes "taskQueues srv High = []" and "taskQueues srv Medium = []"
    and "taskQueues srv Low = [r]" and "1000 < remainingTime (heap s r)"
  shows "\<exists>srv'. schedule_pass srv s
           = (1, srv', s\<lparr>heap := (heap s)(r := (heap s r)\<lparr>remainingTime := remainingTime (heap s r) - 1000\<rparr>)\<rparr>)
           \<and> healthStatus srv' = healthStatus srv
           \<and> taskQueues srv' High = [] \<and> taskQueues srv' Medium = [] \<and> taskQueues srv' Low = [r]"
  using assms
  by (simp add: schedule_pass_def process_priority_def maxProcessingPerStep_def Let_def)


lemma age_lone:
  assumes "tasks s = [r]"
  shows "heap (ageTasks s) = (heap s)(r := age_task (simulationTime s) (heap s r))"
  using assms by (simp add: ageTasks_def)

lemma tick_lone:
  assumes inv: "lone_hog k s" and k: "0 \<le> k" "k < 8999"
  shows "lone_hog (k + 1) (tick s)"
proof -
  from inv obtain srv where srv: "servers s = [srv]" "usable srv"
    and q: "taskQueues srv High = []" "taskQueues srv Medium = []" "taskQueues srv Low = [0]"
    by (auto simp: lone_hog_def)
  from inv have f: "simulationTime s = k" "tasks s = [0]" "nextRef s = 1" "config s = hog_config"
    and t: "status (heap s 0) = Processing" "slaDeadline (heap s 0) = 10000"
      "remainingTime (heap s 0) = 9000000 - 1000 * k"
      "priority (heap s 0) = (if k \<le> 7000 then Low else if k \<le> 8500 then Medium else High)"
    by (simp_all add: lone_hog_def)
  define e where "e = draws (1 / 2) (1000 * (simulationTime s + 2))"
  define srv1 where "srv1 = (if (simulationTime s + 1) mod 3 = 0
                             then health_check e (config s) 0 srv else srv)"
  have u1: "usable srv1"
    unfolding srv1_def using srv(2) health_check_usable [of srv e 0 "config s"]
    by (simp add: e_def draws_def f(4) hog_config_def)
  have q1: "taskQueues srv1 = taskQueues srv" by (simp add: srv1_def taskQueues_health_check)
  define s1 where "s1 = s\<lparr>simulationTime := simulationTime s + 1, servers := [srv1]\<rparr>"
  have rem: "1000 < remainingTime (heap s1 0)" using t(3) k by (simp add: s1_def)
  from schedule_pass_lone [of srv1 0 s1] q rem q1
  obtain srv2 where sp: "schedule_pass srv1 s1
        = (1, srv2, s1\<lparr>heap := (heap s1)(0 := (heap s1 0)\<lparr>remainingTime := remainingTime (heap s1 0) - 1000\<rparr>)\<rparr>)"
    and h2: "healthStatus srv2 = healthStatus srv1"
    and q2: "taskQueues srv2 High = []" "taskQueues srv2 Medium = []" "taskQueues srv2 Low = [0]"
    by auto
  have nf: "healthStatus srv1 \<noteq> Failed" using u1 by (auto simp: usable_def)
  have tc: "tick_core e s
        = s1\<lparr>heap := (heap s1)(0 := (heap s1 0)\<lparr>remainingTime := remainingTime (heap s1 0) - 1000\<rparr>),
             servers := [srv2]\<rparr>"
    using tick_core_one_server [where s = s and e = e and srv = srv, folded srv1_def, OF srv(1) nf]
    unfolding s1_def [symmetric] sp by simp
  have st: "same_tasks (ageTasks (tick_core e s)) (tick s)"
    unfolding tick_def e_def [symmetric] by (rule same_tasks_tick)
  have ts: "tasks (tick_core e s) = [0]" by (simp add: tc s1_def f)
  have hp: "heap (tick s) = (heap s)(0 := age_task (k + 1) ((heap s 0)\<lparr>remainingTime := remainingTime (heap s 0) - 1000\<rparr>))"
    using st age_lone [OF ts] by (simp add: same_tasks_def tc s1_def f)
  have others: "servers (tick s) = [srv2]" "simulationTime (tick s) = k + 1" "tasks (tick s) = [0]"
    "nextRef (tick s) = 1" "config (tick s) = hog_config"
    using st by (simp_all add: same_tasks_def ageTasks_def tc s1_def f)
  have u2: "usable srv2" using u1 h2 by (simp add: usable_def)
  have a: "status (heap (tick s) 0) = Processing" "slaDeadline (heap (tick s) 0) = 10000"
    "remainingTime (heap (tick s) 0) = 9000000 - 1000 * (k + 1)"
    using t by (simp_all add: hp age_task_def Let_def)
  have b: "priority (heap (tick s) 0)
             = (if k + 1 \<le> 7000 then Low else if k + 1 \<le> 8500 then Medium else High)"
    using t by (simp add: hp age_task_def Let_def)
  show ?thesis unfolding lone_hog_def using others u2 q2 a b by simp
qed

lemma hog_start_lone: "lone_hog 0 hog_start"
proof -
  define s0 where "s0 = resetSimulation (draws (1 / 2) 1000)
          ((resetSimulation (draws (1 / 2) 0) new_simulator)\<lparr>config := hog_config\<rparr>)"
  define srv where "srv = new_server (draws (1 / 2) 1000) hog_config 1"
  have f: "servers s0 = [srv]" "config s0 = hog_config" "simulationTime s0 = 0" "tasks s0 = []"
    "nextRef s0 = 0"
    by (simp_all add: s0_def srv_def resetSimulation_def createServers_def hog_config_def
        default_config_def new_simulator_def)
  have u: "usable srv" "taskQueues srv = (\<lambda>_. [])" by (simp_all add: srv_def new_server_def usable_def)
  note g = generateTask_one_server [where s = s0 and srv = srv
      and e = "draws (9 / 10) (1000 * (simulationTime s0 + 1) + 500)" and r = "9 / 10"]
  have "hog_start = snd (generateTask (draws (9 / 10) (1000 * (simulationTime s0 + 1) + 500)) s0)"
    by (simp add: hog_start_def arrival_def s0_def)
  also note g
  finally have eq: "hog_start = s0\<lparr>currentTaskId := currentTaskId s0 + 1,
             heap := (heap s0)(nextRef s0 :=
                \<lparr>task_id = currentTaskId s0, priority = Low, arrivalTime = simulationTime s0,
                 processingTime = taskProcessingTimeMin (config s0),
                 remainingTime = taskProcessingTimeMin (config s0),
                 slaDeadline = simulationTime s0 + slaTarget Low,
                 assignedServer = Some (server_id srv),
                 completionTime = None, responseTime = None, status = Processing,
                 failed = False, creationTimestamp = now (draws (9 / 10) (1000 * (simulationTime s0 + 1) + 500))\<rparr>),
             nextRef := nextRef s0 + 1, tasks := tasks s0 @ [nextRef s0],
             roundRobinCounter := 0,
             servers := [srv\<lparr>taskQueues := (taskQueues srv)(Low := taskQueues srv Low @ [nextRef s0]),
                            processingTasks := processingTasks srv @ [nextRef s0],
                            currentLoad := currentLoad srv + taskProcessingTimeMin (config s0)\<rparr>]\<rparr>"
    using f u by (simp add: draws_def hog_config_def default_config_def)
  show ?thesis unfolding lone_hog_def eq using f u
    by (simp add: hog_config_def usable_def)
qed

lemma ticks_lone: "k \<le> 8999 \<Longrightarrow> lone_hog (int k) ((tick ^^ k) hog_start)"
proof (induction k)
  case 0
  show ?case using hog_start_lone by simp
next
  case (Suc k)
  then have "lone_hog (int k) ((tick ^^ k) hog_start)" by simp
  from tick_lone [OF this] Suc(2) have "lone_hog (int k + 1) (tick ((tick ^^ k) hog_start))" by simp
  then show ?case by (simp add: add.commute)
qed

lemma hog_aged_lone: "lone_hog 8501 hog_aged"
  using ticks_lone [of 8501] by (simp add: hog_aged_def)


lemma crowd_0: "crowd 0 (hog_aged\<lparr>config := hog_config\<lparr>taskCount := 4\<rparr>\<rparr>)"
  using hog_aged_lone by (simp add: crowd_def lone_hog_def)

lemma crowd_arrival:
  assumes "crowd m s"
  shows "crowd (Suc m) (arrival (1 / 2) s)"
proof -
  from assms obtain srv where srv: "servers s = [srv]" "usable srv"
    and q: "taskQueues srv High = []" "taskQueues srv Medium = [1..<Suc m]" "taskQueues srv Low = [0]"
    by (auto simp: crowd_def)
  from assms have f: "simulationTime s = 8501" "tasks s = [0..<Suc m]" "nextRef s = Suc m"
      "config s = hog_config\<lparr>taskCount := 4\<rparr>"
    and t: "status (heap s 0) = Processing" "slaDeadline (heap s 0) = 10000"
      "remainingTime (heap s 0) = 499000" "priority (heap s 0) = High"
    and o: "\<forall>x \<in> {1..m}. status (heap s x) = Processing \<and> slaDeadline (heap s x) = 13501
                         \<and> remainingTime (heap s x) = 9000000 \<and> priority (heap s x) = Medium"
    by (simp_all add: crowd_def)
  define e where "e = draws (1 / 2) (1000 * (simulationTime s + 1) + 500)"
  have eq: "arrival (1 / 2) s =
           s\<lparr>currentTaskId := currentTaskId s + 1,
             heap := (heap s)(nextRef s :=
                \<lparr>task_id = currentTaskId s, priority = Medium, arrivalTime = simulationTime s,
                 processingTime = taskProcessingTimeMin (config s),
                 remainingTime = taskProcessingTimeMin (config s),
                 slaDeadline = simulationTime s + slaTarget Medium,
                 assignedServer = Some (server_id srv),
                 completionTime = None, responseTime = None, status = Processing,
                 failed = False, creationTimestamp = now e\<rparr>),
             nextRef := nextRef s + 1, tasks := tasks s @ [nextRef s],
             roundRobinCounter := 0,
             servers := [srv\<lparr>taskQueues := (taskQueues srv)(Medium := taskQueues srv Medium @ [nextRef s]),
                            processingTasks := processingTasks srv @ [nextRef s],
                            currentLoad := currentLoad srv + taskProcessingTimeMin (config s)\<rparr>]\<rparr>"
    unfolding arrival_def e_def [symmetric]
    using generateTask_one_server [where s = s and srv = srv and e = e and r = "1 / 2"] srv f(4)
    by (simp add: e_def draws_def hog_config_def default_config_def)
  have u: "usable (srv\<lparr>taskQueues := (taskQueues srv)(Medium := taskQueues srv Medium @ [nextRef s]),
                            processingTasks := processingTasks srv @ [nextRef s],
                            currentLoad := currentLoad srv + taskProcessingTimeMin (config s)\<rparr>)"
    using srv(2) by (simp add: usable_def)
  show ?thesis unfolding crowd_def eq using f t o q u
    by (auto simp: hog_config_def)
qed

lemma hog_crowded_crowd: "crowd 3 hog_crowded"
proof -
  have "hog_crowded = arrival (1 / 2) (arrival (1 / 2) (arrival (1 / 2)
          (hog_aged\<lparr>config := hog_config\<lparr>taskCount := 4\<rparr>\<rparr>)))"
    by (simp add: hog_crowded_def numeral_3_eq_3)
  then show ?thesis
    using crowd_arrival [OF crowd_arrival [OF crowd_arrival [OF crowd_0]]]
    by (simp add: numeral_3_eq_3)
qed

lemma schedule_pass_three:
  assumes "taskQueues srv High = []" and "taskQueues srv Medium = [a, b, c]"
    and "distinct [a, b, c]"
    and "1000 < remainingTime (heap s a)" "1000 < remainingTime (heap s b)"
      "1000 < remainingTime (heap s c)"
  shows "\<exists>srv'. schedule_pass srv s
           = (3, srv', s\<lparr>heap := (heap s)
                 (a := (heap s a)\<lparr>remainingTime := remainingTime (heap s a) - 1000\<rparr>,
                  b := (heap s b)\<lparr>remainingTime := remainingTime (heap s b) - 1000\<rparr>,
                  c := (heap s c)\<lparr>remainingTime := remainingTime (heap s c) - 1000\<rparr>)\<rparr>)
           \<and> healthStatus srv' = healthStatus srv
           \<and> taskQueues srv' High = [] \<and> taskQueues srv' Medium = [a, b, c]
           \<and> taskQueues srv' Low = taskQueues srv Low"
  using assms
  by (simp add: schedule_pass_def process_priority_def maxProcessingPerStep_def Let_def)

lemma tick_crowd:
  assumes inv: "crowd 3 s"
  shows "map (\<lambda>x. remainingTime (heap (tick s) x)) [0, 1, 2, 3] = [499000, 8999000, 8999000, 8999000]
         \<and> map (\<lambda>x. priority (heap (tick s) x)) [0, 1, 2, 3] = [High, Medium, Medium, Medium]
         \<and> length (servers (tick s)) = 1 \<and> usable (servers (tick s) ! 0)
         \<and> map (taskQueues (servers (tick s) ! 0)) [High, Medium, Low] = [[], [1, 2, 3], [0]]"
proof -
  have l: "[Suc 0..<4] = [1, 2, 3]" "[0..<4] = [0, 1, 2, 3]" by (simp_all add: upt_rec)
  from inv obtain srv where srv: "servers s = [srv]" "usable srv"
    and q: "taskQueues srv High = []" "taskQueues srv Medium = [1, 2, 3]" "taskQueues srv Low = [0]"
    by (auto simp: crowd_def l)
  from inv have f: "simulationTime s = 8501" "tasks s = [0, 1, 2, 3]"
      "config s = hog_config\<lparr>taskCount := 4\<rparr>"
    and t: "status (heap s 0) = Processing" "slaDeadline (heap s 0) = 10000"
      "remainingTime (heap s 0) = 499000" "priority (heap s 0) = High"
    and o: "\<forall>x \<in> {1..3}. status (heap s x) = Processing \<and> slaDeadline (heap s x) = 13501
                         \<and> remainingTime (heap s x) = 9000000 \<and> priority (heap s x) = Medium"
    by (simp_all add: crowd_def l)
  have o1: "status (heap s 1) = Processing" "slaDeadline (heap s 1) = 13501"
      "remainingTime (heap s 1) = 9000000" "priority (heap s 1) = Medium"
    and o2: "status (heap s 2) = Processing" "slaDeadline (heap s 2) = 13501"
      "remainingTime (heap s 2) = 9000000" "priority (heap s 2) = Medium"
    and o3: "status (heap s 3) = Processing" "slaDeadline (heap s 3) = 13501"
      "remainingTime (heap s 3) = 9000000" "priority (heap s 3) = Medium"
    using o by simp_all
  define e where "e = draws (1 / 2) (1000 * (simulationTime s + 2))"
  define srv1 where "srv1 = (if (simulationTime s + 1) mod 3 = 0
                             then health_check e (config s) 0 srv else srv)"
  have u1: "usable srv1"
    unfolding srv1_def using srv(2) health_check_usable [of srv e 0 "config s"]
    by (simp add: e_def draws_def f(3) hog_config_def)
  have q1: "taskQueues srv1 = taskQueues srv" by (simp add: srv1_def taskQueues_health_check)
  define s1 where "s1 = s\<lparr>simulationTime := simulationTime s + 1, servers := [srv1]\<rparr>"
  have h1: "heap s1 = heap s" by (simp add: s1_def)
  from schedule_pass_three [of srv1 1 2 3 s1] q q1 o1 o2 o3
  obtain srv2 where sp: "schedule_pass srv1 s1
        = (3, srv2, s1\<lparr>heap := (heap s1)
                 (1 := (heap s1 1)\<lparr>remainingTime := remainingTime (heap s1 1) - 1000\<rparr>,
                  2 := (heap s1 2)\<lparr>remainingTime := remainingTime (heap s1 2) - 1000\<rparr>,
                  3 := (heap s1 3)\<lparr>remainingTime := remainingTime (heap s1 3) - 1000\<rparr>)\<rparr>)"
    and h2: "healthStatus srv2 = healthStatus srv1"
    and q2: "taskQueues srv2 High = []" "taskQueues srv2 Medium = [1, 2, 3]"
      "taskQueues srv2 Low = [0]"
    by (auto simp: h1)
  have nf: "healthStatus srv1 \<noteq> Failed" using u1 by (auto simp: usable_def)
  define h where "h = (heap s)
                 (1 := (heap s 1)\<lparr>remainingTime := remainingTime (heap s 1) - 1000\<rparr>,
                  2 := (heap s 2)\<lparr>remainingTime := remainingTime (heap s 2) - 1000\<rparr>,
                  3 := (heap s 3)\<lparr>remainingTime := remainingTime (heap s 3) - 1000\<rparr>)"
  have tc: "tick_core e s = s1\<lparr>heap := h, servers := [srv2]\<rparr>"
    using tick_core_one_server [where s = s and e = e and srv = srv, folded srv1_def, OF srv(1) nf]
    unfolding s1_def [symmetric] sp by (simp add: h_def h1)
  have st: "same_tasks (ageTasks (tick_core e s)) (tick s)"
    unfolding tick_def e_def [symmetric] by (rule same_tasks_tick)
  have hp: "heap (tick s) x = (if x \<in> set [0, 1, 2, 3] then age_task 8502 (h x) else h x)" for x
    using st foldl_age_distinct [of "[0, 1, 2, 3]" 8502 h x]
    by (simp add: same_tasks_def ageTasks_def tc s1_def f)
  have sv: "servers (tick s) = [srv2]"
    using st by (simp add: same_tasks_def ageTasks_def tc s1_def)
  have u2: "usable srv2" using u1 h2 by (simp add: usable_def)
  have r: "map (\<lambda>x. remainingTime (heap (tick s) x)) [0, 1, 2, 3] = [499000, 8999000, 8999000, 8999000]"
    using t o1 o2 o3 by (simp add: hp h_def age_task_def Let_def)
  have p: "map (\<lambda>x. priority (heap (tick s) x)) [0, 1, 2, 3] = [High, Medium, Medium, Medium]"
    using t o1 o2 o3 by (simp add: hp h_def age_task_def Let_def)
  show ?thesis using r p sv u2 q2 by simp
qed

lemma reachable_ticks: "reachable s \<Longrightarrow> reachable ((tick ^^ k) s)"
  by (induction k) (auto simp: tick_def intro: reach_step step_tick)

lemma reachable_hog_crowded: "reachable hog_crowded"
proof -
  have "reachable (resetSimulation (draws (1 / 2) 0) new_simulator)" by (rule reach_init)
  then have "reachable ((resetSimulation (draws (1 / 2) 0) new_simulator)\<lparr>config := hog_config\<rparr>)"
    by (rule reach_step) (rule step_configure)
  then have "reachable (resetSimulation (draws (1 / 2) 1000)
          ((resetSimulation (draws (1 / 2) 0) new_simulator)\<lparr>config := hog_config\<rparr>))"
    by (rule reach_step) (rule step_reset)
  then have "reachable hog_start"
    unfolding hog_start_def arrival_def by (rule reach_step) (rule step_generate)
  then have "reachable hog_aged" unfolding hog_aged_def by (rule reachable_ticks)
  then have "reachable (hog_aged\<lparr>config := hog_config\<lparr>taskCount := 4\<rparr>\<rparr>)"
    by (rule reach_step) (rule step_configure)
  moreover have "reachable (arrival r s)" if "reachable s" for r s
    unfolding arrival_def using that by (rule reach_step) (rule step_generate)
  ultimately show ?thesis by (simp add: hog_crowded_def numeral_3_eq_3)
qed

text \<open>
  C2. The run reaches \<open>hog_crowded\<close> at tick 8501. Task 0 was pushed into the low queue
  with low priority at tick 0, and \<^verbatim>\<open>ageTasks\<close> has escalated it since, to medium at tick
  7001 and to high at tick 8501; tasks 1, 2 and 3 have medium priority and sit in the
  medium queue of the same server. The next tick advances tasks 1, 2 and 3 and leaves
  task 0 as it is: the only high-priority task is still in the low queue, which the pass
  reaches after the medium queue has used the three advancements, and the high queue is
  empty.
\<close>

theorem aged_task_starves_in_low_queue:
  "reachable hog_crowded
   \<and> priority (heap hog_start 0) = Low
   \<and> map (\<lambda>x. priority (heap hog_crowded x)) [0, 1, 2, 3] = [High, Medium, Medium, Medium]
   \<and> length (servers hog_crowded) = 1 \<and> usable (servers hog_crowded ! 0)
   \<and> map (taskQueues (servers hog_crowded ! 0)) [High, Medium, Low] = [[], [1, 2, 3], [0]]
   \<and> map (\<lambda>x. remainingTime (heap hog_crowded x)) [0, 1, 2, 3]
       = [499000, 9000000, 9000000, 9000000]
   \<and> map (\<lambda>x. remainingTime (heap (tick hog_crowded) x)) [0, 1, 2, 3]
       = [499000, 8999000, 8999000, 8999000]
   \<and> map (\<lambda>x. priority (heap (tick hog_crowded) x)) [0, 1, 2, 3] = [High, Medium, Medium, Medium]
   \<and> map (taskQueues (servers (tick hog_crowded) ! 0)) [High, Medium, Low] = [[], [1, 2, 3], [0]]"
proof -
  have l: "[Suc 0..<4] = [1, 2, 3]" by (simp add: upt_rec)
  note c = hog_crowded_crowd
  from c obtain srv where srv: "servers hog_crowded = [srv]" "usable srv"
    and q: "taskQueues srv High = []" "taskQueues srv Medium = [1, 2, 3]" "taskQueues srv Low = [0]"
    by (auto simp: crowd_def l)
  have a: "priority (heap hog_start 0) = Low" using hog_start_lone by (simp add: lone_hog_def)
  have b: "map (\<lambda>x. priority (heap hog_crowded x)) [0, 1, 2, 3] = [High, Medium, Medium, Medium]"
    using c by (simp add: crowd_def)
  have d: "length (servers hog_crowded) = 1 \<and> usable (servers hog_crowded ! 0)"
    using srv by simp
  have e: "map (taskQueues (servers hog_crowded ! 0)) [High, Medium, Low] = [[], [1, 2, 3], [0]]"
    using srv q by simp
  have f: "map (\<lambda>x. remainingTime (heap hog_crowded x)) [0, 1, 2, 3]
       = [499000, 9000000, 9000000, 9000000]"
    using c by (simp add: crowd_def)
  note t = tick_crowd [OF c]
  show ?thesis
    by (rule conjI [OF reachable_hog_crowded conjI [OF a conjI [OF b conjI [OF d [THEN conjunct1]
          conjI [OF d [THEN conjunct2] conjI [OF e conjI [OF f conjI [OF t [THEN conjunct1]
          conjI [OF t [THEN conjunct2, THEN conjunct1]
            t [THEN conjunct2, THEN conjunct2, THEN conjunct2, THEN conjunct2]]]]]]]]]])
qed

end
